theory Spec2Isabelle
  imports Complex_Main
begin

section \<open>The announcement loop of \<open>main.py\<close>\<close>

text \<open>
  A shallow embedding of class \<open>Looper\<close>. One cycle of the loop (\<open>send_announcement\<close>)
  reads the wall clock, sleeps, optionally asks the streams endpoint whether the channel
  is live, and posts the current announcement. Everything the cycle takes from outside
  (the clock reading, whether the operating system lets the sleep run, and the outcome of
  each HTTP request) is an explicit input, the \<open>world\<close> of that cycle; everything it does
  to the outside (the sleep and the requests it issues) is recorded in a trace of events.

  Python's floats are IEEE 754 doubles. A finite float is modelled by the real number it
  stands for, every operation on floats rounds its exact result to the nearest double
  (\<open>round_real\<close>), and the infinities and NaN are values of their own. The sign of a
  zero is not modelled. Log lines are not modelled.
\<close>

subsection \<open>Exceptions and values\<close>

text \<open>
  The exceptions a cycle can meet. \<open>Timeout\<close> stands for \<open>requests.exceptions.Timeout\<close>
  and its subclasses, \<open>ConnectionError\<close> for any other fault raised by a request.
\<close>

datatype exn =
    Timeout
  | ConnectionError
  | JSONDecodeError
  | KeyError
  | TypeError
  | IndexError
  | ZeroDivisionError
  | ValueError
  | OverflowError
  | OSError

text \<open>The Python values that decoding a JSON body yields.\<close>

datatype pyval =
    PNone
  | PBool bool
  | PNum real
  | PStr string
  | PList "pyval list"
  | PDict "(string \<times> pyval) list"

text \<open>Truth value of an object, as \<open>not\<close> and \<open>if\<close> test it.\<close>

fun truthy :: "pyval \<Rightarrow> bool" where
  "truthy PNone = False"
| "truthy (PBool b) = b"
| "truthy (PNum x) = (x \<noteq> 0)"
| "truthy (PStr s) = (s \<noteq> [])"
| "truthy (PList xs) = (xs \<noteq> [])"
| "truthy (PDict kvs) = (kvs \<noteq> [])"

text \<open>
  Subscription \<open>v[k]\<close> with a string key. A dictionary decoded from a JSON object keeps
  the last binding of a repeated key; a missing key raises \<open>KeyError\<close>; every other value
  raises \<open>TypeError\<close>.
\<close>

fun getitem :: "pyval \<Rightarrow> string \<Rightarrow> exn + pyval" where
  "getitem (PDict kvs) k =
     (case map_of (rev kvs) k of None \<Rightarrow> Inl KeyError | Some v \<Rightarrow> Inr v)"
| "getitem v k = Inl TypeError"

subsection \<open>Floats\<close>

text \<open>Rounding a real to the nearest integer, a tie going to the even one.\<close>

definition rhe :: "real \<Rightarrow> int" where
  "rhe y =
     (let f = \<lfloor>y\<rfloor>; d = y - of_int f
      in if d < 1 / 2 then f else if 1 / 2 < d then f + 1 else if even f then f else f + 1)"

text \<open>The binary exponent of a positive real \<open>x\<close>: the \<open>e\<close> with \<open>2^e \<le> x < 2^(e+1)\<close>.\<close>

function binade :: "real \<Rightarrow> int" where
  "binade x =
     (if x \<le> 0 then 0
      else if 2 \<le> x then binade (x / 2) + 1
      else if x < 1 then binade (x * 2) - 1
      else 0)"
  by pat_completeness auto
termination
proof (relation "measure (\<lambda>x. nat \<bar>\<lfloor>log 2 x\<rfloor>\<bar>)")
  show "wf (measure (\<lambda>x. nat \<bar>\<lfloor>log 2 x\<rfloor>\<bar>))" by simp
next
  fix x :: real
  assume "\<not> x \<le> 0" "2 \<le> x"
  then have "log 2 (x / 2) = log 2 x - 1" and "1 \<le> log 2 x"
    by (simp_all add: log_divide le_log_iff)
  then have "\<lfloor>log 2 (x / 2)\<rfloor> = \<lfloor>log 2 x\<rfloor> - 1" and "1 \<le> \<lfloor>log 2 x\<rfloor>"
    by (simp_all add: le_floor_iff)
  then show "(x / 2, x) \<in> measure (\<lambda>x. nat \<bar>\<lfloor>log 2 x\<rfloor>\<bar>)" by simp
next
  fix x :: real
  assume "\<not> x \<le> 0" "\<not> 2 \<le> x" "x < 1"
  then have "log 2 (x * 2) = log 2 x + 1" and "log 2 x < 0"
    by (simp_all add: log_mult)
  then have "\<lfloor>log 2 (x * 2)\<rfloor> = \<lfloor>log 2 x\<rfloor> + 1" and "\<lfloor>log 2 x\<rfloor> \<le> - 1"
    by (simp_all add: floor_le_iff)
  then show "(x * 2, x) \<in> measure (\<lambda>x. nat \<bar>\<lfloor>log 2 x\<rfloor>\<bar>)" by simp
qed

declare binade.simps [simp del]

text \<open>
  The spacing of the doubles around \<open>x\<close> (53 significant bits; below \<open>2^-1022\<close> the
  spacing stays \<open>2^-1074\<close>), and the double nearest to \<open>x\<close>, a tie going to the even
  significand. The exponent is not bounded above here; \<open>to_float\<close> turns a result
  beyond the largest double into an infinity.
\<close>

definition ulp :: "real \<Rightarrow> real" where
  "ulp x = 2 powi (max (binade \<bar>x\<bar>) (- 1022) - 52)"

definition round_real :: "real \<Rightarrow> real" where
  "round_real x = (if x = 0 then 0 else ulp x * of_int (rhe (x / ulp x)))"

text \<open>The reals that are finite doubles, and the type of these.\<close>

definition is_double :: "real \<Rightarrow> bool" where
  "is_double x \<longleftrightarrow>
     (\<exists>m e. \<bar>m\<bar> < 2 ^ 53 \<and> - 1074 \<le> e \<and> e \<le> 971 \<and> x = of_int m * 2 powi e)"

typedef double = "{x :: real. is_double x}"
  morphisms real_of_double Abs_double
proof
  have "\<bar>0::int\<bar> < 2 ^ 53 \<and> - 1074 \<le> (0::int) \<and> (0::int) \<le> 971
        \<and> (0::real) = of_int 0 * 2 powi 0"
    by simp
  then show "0 \<in> {x :: real. is_double x}"
    unfolding is_double_def by blast
qed

text \<open>
  A float is a finite value, an infinity or NaN. The configured interval is a float whose
  finite values are doubles (\<open>double pyfloat\<close>; an integer in the configuration is
  converted to the nearest double by the first operation that uses it); a computed float
  carries the real it stands for (\<open>real pyfloat\<close>).
\<close>

datatype 'a pyfloat = Finite 'a | PosInf | NegInf | NaN

definition to_float :: "real \<Rightarrow> real pyfloat" where
  "to_float z =
     (let r = round_real z
      in if 2 ^ 1024 \<le> r then PosInf else if r \<le> - (2 ^ 1024) then NegInf else Finite r)"

text \<open>C's \<open>fmod\<close>: exact, with the sign of the dividend.\<close>

definition trunc :: "real \<Rightarrow> int" where
  "trunc z = (if 0 \<le> z then \<lfloor>z\<rfloor> else \<lceil>z\<rceil>)"

definition c_fmod :: "real \<Rightarrow> real \<Rightarrow> real" where
  "c_fmod x y = x - y * of_int (trunc (x / y))"

text \<open>
  Python's \<open>%\<close> on floats: \<open>fmod\<close>, and when the result is not zero and its sign is not
  the divisor's, the divisor is added to it (a float addition, which rounds).
\<close>

definition float_mod :: "real pyfloat \<Rightarrow> double pyfloat \<Rightarrow> exn + real pyfloat" where
  "float_mod v w =
     (case w of
        Finite y \<Rightarrow>
          (let wr = real_of_double y
           in if wr = 0 then Inl ZeroDivisionError
              else (case v of
                      Finite x \<Rightarrow>
                        (let m = c_fmod x wr
                         in if m \<noteq> 0 \<and> (wr < 0) \<noteq> (m < 0) then Inr (to_float (m + wr))
                            else Inr (Finite m))
                    | _ \<Rightarrow> Inr NaN))
      | PosInf \<Rightarrow>
          (case v of Finite x \<Rightarrow> Inr (if x < 0 then PosInf else Finite x) | _ \<Rightarrow> Inr NaN)
      | NegInf \<Rightarrow>
          (case v of Finite x \<Rightarrow> Inr (if 0 < x then NegInf else Finite x) | _ \<Rightarrow> Inr NaN)
      | NaN \<Rightarrow> Inr NaN)"

text \<open>Float subtraction \<open>a - b\<close>.\<close>

fun float_sub :: "double pyfloat \<Rightarrow> real pyfloat \<Rightarrow> real pyfloat" where
  "float_sub NaN b = NaN"
| "float_sub a NaN = NaN"
| "float_sub PosInf PosInf = NaN"
| "float_sub PosInf b = PosInf"
| "float_sub NegInf NegInf = NaN"
| "float_sub NegInf b = NegInf"
| "float_sub (Finite a) PosInf = NegInf"
| "float_sub (Finite a) NegInf = PosInf"
| "float_sub (Finite a) (Finite b) = to_float (real_of_double a - b)"

subsection \<open>Wall clock and durations\<close>

record datetime =
  year :: nat
  month :: nat
  day :: nat
  hour :: nat
  minute :: nat
  second :: nat
  microsecond :: nat

text \<open>
  A \<open>timedelta\<close> is a whole number of microseconds; this is the value that the library's
  normalised triple of days, seconds and microseconds represents.
\<close>

type_synonym timedelta = int

definition timedelta :: "int \<Rightarrow> int \<Rightarrow> int \<Rightarrow> int \<Rightarrow> timedelta" where
  "timedelta days minutes seconds microseconds =
     ((days * 24 * 60 + minutes) * 60 + seconds) * 1000000 + microseconds"

text \<open>
  True division of two durations is the true division of their microseconds: the double
  nearest to the quotient.
\<close>

definition timedelta_truediv :: "timedelta \<Rightarrow> timedelta \<Rightarrow> exn + real" where
  "timedelta_truediv a b =
     (if b = 0 then Inl ZeroDivisionError
      else let q = round_real (real_of_int a / real_of_int b)
           in if 2 ^ 1024 \<le> \<bar>q\<bar> then Inl OverflowError else Inr q)"

text \<open>
  Line 62, \<open>timedelta(seconds=x)\<close> for a float \<open>x\<close>. Only the log line reads the value, so
  the model keeps whether the constructor raises: on NaN, on an infinity, and when the
  duration, rounded to microseconds, has more than 999999999 days.
\<close>

definition timedelta_seconds :: "real pyfloat \<Rightarrow> exn + unit" where
  "timedelta_seconds x =
     (case x of
        NaN \<Rightarrow> Inl ValueError
      | PosInf \<Rightarrow> Inl OverflowError
      | NegInf \<Rightarrow> Inl OverflowError
      | Finite v \<Rightarrow>
          (let days = rhe (v * 1000000) div 86400000000
           in if days < - 999999999 \<or> 999999999 < days then Inl OverflowError
              else Inr ()))"

subsection \<open>The looper and its surroundings\<close>

record looper =
  broadcaster_id :: string
  ignore_offline :: bool
  announcements :: "string list"
  moderator_id :: string
  interval :: "double pyfloat"
  index :: nat
  headers :: "(string \<times> string) list"

definition SECONDS_IN_A_MINUTE :: nat where
  "SECONDS_IN_A_MINUTE = 60"

definition URL_PREFIX :: string where
  "URL_PREFIX = ''https://api.twitch.tv/helix/''"

text \<open>The constructor \<open>Looper.__init__\<close>, arguments in the source's order.\<close>

definition Looper ::
  "string list \<Rightarrow> bool \<Rightarrow> string \<Rightarrow> string \<Rightarrow> double pyfloat \<Rightarrow> string \<Rightarrow> string
     \<Rightarrow> looper" where
  "Looper anns ign bid mid ival client_id token =
     \<lparr> broadcaster_id = bid,
       ignore_offline = ign,
       announcements = anns,
       moderator_id = mid,
       interval = ival,
       index = 0,
       headers = [(''Authorization'', ''Bearer '' @ token), (''Client-Id'', client_id)] \<rparr>"

record response =
  status_code :: int
  content :: string
  parsed :: "pyval option"

text \<open>
  In a \<open>response\<close>, \<open>parsed\<close> is what \<open>response.json()\<close> returns for the body, and \<open>None\<close>
  when the body is not JSON (the call raises \<open>JSONDecodeError\<close>).
\<close>

datatype outcome = Raises exn | Returns response

text \<open>
  The world of a cycle: the clock reading, what the operating system does with a sleep
  that Python has accepted (\<open>None\<close>: it runs; \<open>Some e\<close>: it raises \<open>e\<close>), and the outcomes of
  the two requests, should the cycle issue them.
\<close>

record world =
  now :: datetime
  sleep_outcome :: "exn option"
  get_outcome :: outcome
  post_outcome :: outcome

record request =
  url :: string
  payload :: "(string \<times> string) list"
  params :: "(string \<times> string) list"
  req_headers :: "(string \<times> string) list"
  timeout :: nat

datatype event = Sleep real | Get request | Post request

type_synonym 'a result = "(exn + 'a) \<times> event list"

subsection \<open>The methods\<close>

definition check_status_code :: "response \<Rightarrow> int \<Rightarrow> bool" where
  "check_status_code r code = (status_code r = code)"

definition get_announcement :: "looper \<Rightarrow> exn + string" where
  "get_announcement s =
     (if index s < length (announcements s) then Inr (announcements s ! index s)
      else Inl IndexError)"

text \<open>The two requests, as \<open>get_online\<close> and \<open>post_announce\<close> build them.\<close>

definition streams_request :: "looper \<Rightarrow> request" where
  "streams_request s =
     \<lparr> url = URL_PREFIX @ ''streams'',
       payload = [],
       params = [(''user_id'', broadcaster_id s)],
       req_headers = headers s,
       timeout = SECONDS_IN_A_MINUTE \<rparr>"

definition announcement_request :: "looper \<Rightarrow> string \<Rightarrow> request" where
  "announcement_request s msg =
     \<lparr> url = URL_PREFIX @ ''chat/announcements'',
       payload = [(''message'', msg)],
       params = [(''broadcaster_id'', broadcaster_id s), (''moderator_id'', moderator_id s)],
       req_headers = headers s,
       timeout = 60 \<rparr>"

definition get_online :: "world \<Rightarrow> looper \<Rightarrow> pyval result" where
  "get_online w s =
     (let ev = [Get (streams_request s)]
      in case get_outcome w of
           Raises e \<Rightarrow> (Inl e, ev)
         | Returns r \<Rightarrow>
             if check_status_code r 200 then
               (case parsed r of
                  None \<Rightarrow> (Inl JSONDecodeError, ev)
                | Some j \<Rightarrow> (getitem j ''data'', ev))
             else (Inr (PBool False), ev))"

text \<open>
  \<open>post_announce\<close> reads \<open>announcements[index]\<close> before it sends anything, so an index
  out of range raises \<open>IndexError\<close> with no request issued.
\<close>

definition post_announce :: "world \<Rightarrow> looper \<Rightarrow> pyval result" where
  "post_announce w s =
     (case get_announcement s of
        Inl e \<Rightarrow> (Inl e, [])
      | Inr msg \<Rightarrow>
          (let ev = [Post (announcement_request s msg)]
           in case post_outcome w of
                Raises e \<Rightarrow> (Inl e, ev)
              | Returns r \<Rightarrow> (Inr (PBool (check_status_code r 204)), ev)))"

text \<open>\<open>try_request\<close> turns a timeout of the request into the result \<open>False\<close>.\<close>

definition try_request :: "(world \<Rightarrow> looper \<Rightarrow> pyval result) \<Rightarrow> world \<Rightarrow> looper \<Rightarrow> pyval result" where
  "try_request req w s =
     (case req w s of
        (Inl e, ev) \<Rightarrow> if e = Timeout then (Inr (PBool False), ev) else (Inl e, ev)
      | (Inr v, ev) \<Rightarrow> (Inr v, ev))"

text \<open>Lines 53 to 60: the time to sleep before the next announcement.\<close>

definition seconds_until_announcement :: "datetime \<Rightarrow> double pyfloat \<Rightarrow> exn + real pyfloat" where
  "seconds_until_announcement t ival =
     (case timedelta_truediv
             (timedelta (int (day t)) (int (minute t)) (int (second t)) (int (microsecond t)))
             (timedelta 0 0 1 0) of
        Inl e \<Rightarrow> Inl e
      | Inr secs \<Rightarrow>
          (case float_mod (Finite secs) ival of
             Inl e \<Rightarrow> Inl e
           | Inr r \<Rightarrow> Inr (float_sub ival r)))"

text \<open>
  \<open>time.sleep\<close> converts the duration to a signed 64-bit count of nanoseconds (a float
  multiplication by \<open>10^9\<close>): NaN is a \<open>ValueError\<close>, a count out of range is an
  \<open>OverflowError\<close>, a negative duration is a \<open>ValueError\<close>. Then the operating system
  sleeps, or refuses.
\<close>

definition sleep :: "world \<Rightarrow> real pyfloat \<Rightarrow> unit result" where
  "sleep w x =
     (case x of
        NaN \<Rightarrow> (Inl ValueError, [])
      | PosInf \<Rightarrow> (Inl OverflowError, [])
      | NegInf \<Rightarrow> (Inl OverflowError, [])
      | Finite d \<Rightarrow>
          (let ns = round_real (d * 1000000000)
           in if ns < - (2 ^ 63) \<or> 2 ^ 63 \<le> ns then (Inl OverflowError, [])
              else if d < 0 then (Inl ValueError, [])
              else (case sleep_outcome w of
                      Some e \<Rightarrow> (Inl e, [])
                    | None \<Rightarrow> (Inr (), [Sleep d]))))"

text \<open>
  Lines 80 to 88: the log line reads the current announcement, the post is tried, and the
  index moves on when the post succeeded.
\<close>

definition announce :: "world \<Rightarrow> looper \<Rightarrow> looper result" where
  "announce w s =
     (case get_announcement s of
        Inl e \<Rightarrow> (Inl e, [])
      | Inr msg \<Rightarrow>
          (case try_request post_announce w s of
             (Inl e, ev) \<Rightarrow> (Inl e, ev)
           | (Inr v, ev) \<Rightarrow>
               if truthy v then
                 (if length (announcements s) = 0 then (Inl ZeroDivisionError, ev)
                  else (Inr (s\<lparr>index := (index s + 1) mod length (announcements s)\<rparr>), ev))
               else (Inr s, ev)))"

text \<open>Lines 76 to 88: the online check, then the announcement.\<close>

definition check_and_announce :: "world \<Rightarrow> looper \<Rightarrow> looper result" where
  "check_and_announce w s =
     (if ignore_offline s then
        (case try_request get_online w s of
           (Inl e, ev1) \<Rightarrow> (Inl e, ev1)
         | (Inr v, ev1) \<Rightarrow>
             if \<not> truthy v then (Inr s, ev1)
             else (case announce w s of (r, ev2) \<Rightarrow> (r, ev1 @ ev2)))
      else announce w s)"

text \<open>
  A cycle: the wait of lines 53 to 60, the \<open>timedelta\<close> of line 62, the sleep of line 73,
  then lines 76 to 88.
\<close>

definition send_announcement :: "world \<Rightarrow> looper \<Rightarrow> looper result" where
  "send_announcement w s =
     (case seconds_until_announcement (now w) (interval s) of
        Inl e \<Rightarrow> (Inl e, [])
      | Inr secs \<Rightarrow>
          (case timedelta_seconds secs of
             Inl e \<Rightarrow> (Inl e, [])
           | Inr wait \<Rightarrow>
               (case sleep w secs of
                  (Inl e, ev0) \<Rightarrow> (Inl e, ev0)
                | (Inr u, ev0) \<Rightarrow>
                    (case check_and_announce w s of (r, ev) \<Rightarrow> (r, ev0 @ ev)))))"

text \<open>
  \<open>run\<close> loops forever. The model runs it on the worlds of finitely many cycles: it stops
  with \<open>Inl e\<close> at the first cycle that raises \<open>e\<close>, and gives \<open>Inr s\<close>, the state in which
  the loop goes on, when every given cycle has returned.
\<close>

fun run :: "world list \<Rightarrow> looper \<Rightarrow> looper result" where
  "run [] s = (Inr s, [])"
| "run (w # ws) s =
     (case send_announcement w s of
        (Inl e, ev) \<Rightarrow> (Inl e, ev)
      | (Inr s', ev) \<Rightarrow> (case run ws s' of (r, ev') \<Rightarrow> (r, ev @ ev')))"

subsection \<open>Reading a trace\<close>

fun sleeps :: "event list \<Rightarrow> real list" where
  "sleeps [] = []"
| "sleeps (Sleep d # es) = d # sleeps es"
| "sleeps (e # es) = sleeps es"

fun gets :: "event list \<Rightarrow> request list" where
  "gets [] = []"
| "gets (Get q # es) = q # gets es"
| "gets (e # es) = gets es"

fun posts :: "event list \<Rightarrow> request list" where
  "posts [] = []"
| "posts (Post q # es) = q # posts es"
| "posts (e # es) = posts es"

subsection \<open>Vocabulary of the properties\<close>

text \<open>
  The seconds that the day, minute, second and microsecond fields of a clock reading
  stand for (the hour field is left out), the seconds since the start of the hour, and
  the whole seconds of the former.
\<close>

definition elapsed :: "datetime \<Rightarrow> real" where
  "elapsed t =
     real (day t) * 86400 + real (minute t) * 60 + real (second t)
     + real (microsecond t) / 1000000"

definition seconds_in_hour :: "datetime \<Rightarrow> real" where
  "seconds_in_hour t =
     real (minute t) * 60 + real (second t) + real (microsecond t) / 1000000"

definition whole_seconds :: "datetime \<Rightarrow> nat" where
  "whole_seconds t = day t * 86400 + minute t * 60 + second t"

text \<open>The modulo of the reals, with the sign of the divisor.\<close>

definition rmod :: "real \<Rightarrow> real \<Rightarrow> real" where
  "rmod x y = x - y * of_int \<lfloor>x / y\<rfloor>"

text \<open>
  In Python's float arithmetic, with \<open>elapsed\<close> rounded to a float: the wait
  \<open>interval - elapsed mod interval\<close>, and the wait as the specification writes it,
  \<open>(interval - elapsed mod interval) mod interval\<close>.
\<close>

definition plain_wait :: "datetime \<Rightarrow> double pyfloat \<Rightarrow> exn + real pyfloat" where
  "plain_wait t ival =
     (case float_mod (Finite (round_real (elapsed t))) ival of
        Inl e \<Rightarrow> Inl e
      | Inr r \<Rightarrow> Inr (float_sub ival r))"

definition claimed_wait :: "datetime \<Rightarrow> double pyfloat \<Rightarrow> exn + real pyfloat" where
  "claimed_wait t ival =
     (case plain_wait t ival of
        Inl e \<Rightarrow> Inl e
      | Inr x \<Rightarrow> float_mod x ival)"

text \<open>An interval above zero, and a duration that is at most the interval.\<close>

definition is_positive :: "double pyfloat \<Rightarrow> bool" where
  "is_positive ival =
     (case ival of Finite y \<Rightarrow> 0 < real_of_double y | PosInf \<Rightarrow> True | _ \<Rightarrow> False)"

definition at_most :: "real \<Rightarrow> double pyfloat \<Rightarrow> bool" where
  "at_most d ival =
     (case ival of Finite y \<Rightarrow> d \<le> real_of_double y | PosInf \<Rightarrow> True | _ \<Rightarrow> False)"

text \<open>The post is answered with status 204; the post times out or is answered otherwise.\<close>

definition post_succeeds :: "world \<Rightarrow> bool" where
  "post_succeeds w =
     (case post_outcome w of Raises e \<Rightarrow> False | Returns r \<Rightarrow> status_code r = 204)"

definition post_fails :: "world \<Rightarrow> bool" where
  "post_fails w =
     (case post_outcome w of Raises e \<Rightarrow> e = Timeout | Returns r \<Rightarrow> status_code r \<noteq> 204)"

text \<open>
  The status check confirms the channel online: status 200 and a \<open>data\<close> that counts as
  true (a non-empty list). It fails to confirm it: a timeout, another status, or a \<open>data\<close>
  that counts as false (the empty list).
\<close>

definition confirmed_online :: "world \<Rightarrow> bool" where
  "confirmed_online w =
     (case get_outcome w of
        Raises e \<Rightarrow> False
      | Returns r \<Rightarrow>
          status_code r = 200 \<and>
          (case parsed r of
             None \<Rightarrow> False
           | Some j \<Rightarrow> (case getitem j ''data'' of Inl e \<Rightarrow> False | Inr v \<Rightarrow> truthy v)))"

definition not_confirmed_online :: "world \<Rightarrow> bool" where
  "not_confirmed_online w =
     (case get_outcome w of
        Raises e \<Rightarrow> e = Timeout
      | Returns r \<Rightarrow>
          status_code r \<noteq> 200 \<or>
          (case parsed r of
             None \<Rightarrow> False
           | Some j \<Rightarrow> (case getitem j ''data'' of Inl e \<Rightarrow> False | Inr v \<Rightarrow> \<not> truthy v)))"

text \<open>The body of a response is not JSON, or is JSON without a \<open>data\<close> key.\<close>

definition lacks_data :: "response \<Rightarrow> bool" where
  "lacks_data r =
     (case parsed r of
        None \<Rightarrow> True
      | Some (PDict kvs) \<Rightarrow> ''data'' \<notin> set (map fst kvs)
      | Some v \<Rightarrow> True)"

section \<open>Auxiliary facts\<close>

subsection \<open>Rounding to a double\<close>

lemma rhe_le: "y \<le> of_int k \<Longrightarrow> rhe y \<le> k"
  by (auto simp: rhe_def Let_def) linarith+

lemma rhe_ge: "of_int k \<le> y \<Longrightarrow> k \<le> rhe y"
  by (auto simp: rhe_def Let_def) linarith+

lemma rhe_of_int: "rhe (of_int k) = k"
  by (simp add: rhe_def)

lemma binade_pos_bounds:
  "0 < x \<Longrightarrow> 2 powi (binade x) \<le> x \<and> x < 2 powi (binade x + 1)"
proof (induction x rule: binade.induct)
  case (1 x)
  show ?case
  proof (cases "2 \<le> x")
    case True
    then have b: "binade x = binade (x / 2) + 1" using "1.prems" by (subst binade.simps) simp
    have "2 powi (binade (x / 2)) \<le> x / 2 \<and> x / 2 < 2 powi (binade (x / 2) + 1)"
      using "1.IH"(1) "1.prems" True by simp
    then show ?thesis
      by (simp add: b power_int_add field_simps)
  next
    case False
    show ?thesis
    proof (cases "x < 1")
      case True
      then have b: "binade x = binade (x * 2) - 1"
        using "1.prems" False by (subst binade.simps) simp
      have "2 powi (binade (x * 2)) \<le> x * 2 \<and> x * 2 < 2 powi (binade (x * 2) + 1)"
        using "1.IH"(2) "1.prems" False True by simp
      then show ?thesis
        by (simp add: b power_int_add power_int_diff field_simps)
    next
      case False
      with \<open>\<not> 2 \<le> x\<close> "1.prems" have "binade x = 0" by (subst binade.simps) simp
      with False \<open>\<not> 2 \<le> x\<close> show ?thesis by simp
    qed
  qed
qed

lemma binade_bounds:
  assumes "x \<noteq> 0"
  shows "2 powi (binade \<bar>x\<bar>) \<le> \<bar>x\<bar>" and "\<bar>x\<bar> < 2 powi (binade \<bar>x\<bar> + 1)"
  using binade_pos_bounds [of "\<bar>x\<bar>"] assms by simp_all

lemma ulp_pos: "0 < ulp x"
  by (simp add: ulp_def)

text \<open>A double of the same or a larger binade is a whole multiple of the spacing.\<close>

lemma double_on_grid:
  assumes "is_double d" "- 1074 \<le> q" "q = - 1074 \<or> 2 powi (q + 52) \<le> \<bar>d\<bar>"
  shows "\<exists>k::int. d = 2 powi q * of_int k"
proof -
  from assms(1) obtain m e where
    m: "\<bar>m\<bar> < 2 ^ 53" and e: "- 1074 \<le> e" "e \<le> 971" and d: "d = of_int m * 2 powi e"
    unfolding is_double_def by blast
  have "q \<le> e"
  proof (rule ccontr)
    assume "\<not> q \<le> e"
    then have lt: "e < q" by simp
    with e assms(2,3) have big: "2 powi (q + 52) \<le> \<bar>d\<bar>" by auto
    have "\<bar>d\<bar> = of_int \<bar>m\<bar> * 2 powi e" by (simp add: d abs_mult)
    also have "\<dots> < 2 ^ 53 * 2 powi e"
    proof -
      have "real_of_int \<bar>m\<bar> < 2 ^ 53" using m by (metis of_int_less_numeral_power_cancel_iff)
      then show ?thesis by (simp add: mult_strict_right_mono)
    qed
    also have "\<dots> = 2 powi (e + 53)" by (simp add: power_int_add)
    also have "\<dots> \<le> 2 powi (q + 52)"
      using lt by (intro power_int_increasing) simp_all
    finally show False using big by simp
  qed
  then have "2 powi e = (2::real) powi q * 2 ^ nat (e - q)"
    using power_int_add [of "2::real" q "e - q"] by (simp add: power_int_nonneg_exp)
  then have "d = 2 powi q * of_int (m * 2 ^ nat (e - q))"
    by (simp add: d)
  then show ?thesis by blast
qed

lemma round_real_double:
  assumes "is_double d"
  shows "round_real d = d"
proof (cases "d = 0")
  case True
  then show ?thesis by (simp add: round_real_def)
next
  case False
  let ?q = "max (binade \<bar>d\<bar>) (- 1022) - 52"
  have q: "- 1074 \<le> ?q" by (simp add: max_def)
  have g: "?q = - 1074 \<or> 2 powi (?q + 52) \<le> \<bar>d\<bar>"
    using binade_bounds(1) [OF False] by (auto simp: max_def)
  from double_on_grid [OF assms q g] obtain k :: int where k: "d = 2 powi ?q * of_int k"
    by blast
  have "d / ulp d = of_int k"
    unfolding ulp_def using k by (metis nonzero_mult_div_cancel_left power_int_eq_0_iff zero_neq_numeral)
  then show ?thesis
    using False k by (simp add: round_real_def rhe_of_int ulp_def)
qed

text \<open>Rounding does not step over a double.\<close>

lemma round_real_le_double:
  assumes "0 < z" "z \<le> d" "is_double d"
  shows "round_real z \<le> d"
proof -
  let ?q = "max (binade \<bar>z\<bar>) (- 1022) - 52"
  have z0: "z \<noteq> 0" using assms(1) by simp
  have q: "- 1074 \<le> ?q" by (simp add: max_def)
  have g: "?q = - 1074 \<or> 2 powi (?q + 52) \<le> \<bar>d\<bar>"
    using binade_bounds(1) [OF z0] assms(1,2) by (auto simp: max_def)
  from double_on_grid [OF assms(3) q g] obtain k :: int where k: "d = 2 powi ?q * of_int k"
    by blast
  have "z / ulp z \<le> d / ulp z"
    using assms(2) ulp_pos [of z] by (simp add: divide_right_mono)
  also have "d / ulp z = of_int k"
    unfolding ulp_def using k by (metis nonzero_mult_div_cancel_left power_int_eq_0_iff zero_neq_numeral)
  finally have "rhe (z / ulp z) \<le> k" by (rule rhe_le)
  then have "ulp z * of_int (rhe (z / ulp z)) \<le> ulp z * of_int k"
    using ulp_pos [of z] by (simp add: mult_left_mono)
  then show ?thesis
    using z0 k by (simp add: round_real_def ulp_def)
qed

lemma round_real_nonneg: "0 \<le> z \<Longrightarrow> 0 \<le> round_real z"
proof -
  assume z: "0 \<le> z"
  have "of_int 0 \<le> z / ulp z" using z ulp_pos [of z] by simp
  then have "0 \<le> rhe (z / ulp z)" by (rule rhe_ge)
  then show ?thesis using ulp_pos [of z] by (simp add: round_real_def)
qed

lemma is_double_of_int: "\<bar>n\<bar> < 2 ^ 53 \<Longrightarrow> is_double (of_int n)"
  unfolding is_double_def by (rule exI [of _ n], rule exI [of _ 0]) simp

lemma is_double_of_nat: "n < 2 ^ 53 \<Longrightarrow> is_double (real n)"
  using is_double_of_int [of "int n"] by simp

lemma is_double_less: "is_double d \<Longrightarrow> \<bar>d\<bar> < 2 ^ 1024"
proof -
  assume "is_double d"
  then obtain m e where
    m: "\<bar>m\<bar> < 2 ^ 53" and e: "- 1074 \<le> e" "e \<le> 971" and d: "d = of_int m * 2 powi e"
    unfolding is_double_def by blast
  have "\<bar>d\<bar> = of_int \<bar>m\<bar> * 2 powi e" by (simp add: d abs_mult)
  also have "\<dots> < 2 ^ 53 * 2 powi e"
  proof -
    have "real_of_int \<bar>m\<bar> < 2 ^ 53" using m by (metis of_int_less_numeral_power_cancel_iff)
    then show ?thesis by (simp add: mult_strict_right_mono)
  qed
  also have "\<dots> = 2 powi (e + 53)" by (simp add: power_int_add)
  also have "\<dots> \<le> 2 powi 1024"
    using e by (intro power_int_increasing) simp_all
  finally show ?thesis by simp
qed

lemma round_real_nat: "n < 2 ^ 53 \<Longrightarrow> round_real (real n) = real n"
  by (rule round_real_double) (rule is_double_of_nat)

lemma is_double_interval: "is_double (real_of_double y)"
  using real_of_double [of y] by simp

lemma real_of_double_nat: "n < 2 ^ 53 \<Longrightarrow> real_of_double (Abs_double (real n)) = real n"
  by (simp add: Abs_double_inverse is_double_of_nat)

subsection \<open>Arithmetic of the wait\<close>

lemma rmod_nonneg: "0 < y \<Longrightarrow> 0 \<le> rmod x y"
  using floor_divide_lower [of y x] by (simp add: rmod_def mult.commute)

lemma rmod_less: "0 < y \<Longrightarrow> rmod x y < y"
  using floor_divide_upper [of y x] by (simp add: rmod_def algebra_simps)

lemma rmod_small: "0 \<le> x \<Longrightarrow> x < y \<Longrightarrow> rmod x y = x"
proof -
  assume a: "0 \<le> x" "x < y"
  then have "\<lfloor>x / y\<rfloor> = 0" by (intro floor_unique) auto
  then show ?thesis by (simp add: rmod_def)
qed

lemma rmod_multiple: "y \<noteq> 0 \<Longrightarrow> rmod (y * of_int k) y = 0"
  by (simp add: rmod_def)

lemma rmod_self: "y \<noteq> 0 \<Longrightarrow> rmod y y = 0"
  by (simp add: rmod_def)

lemma rmod_add_multiple: "y \<noteq> 0 \<Longrightarrow> rmod (x + y * of_int k) y = rmod x y"
proof -
  assume y: "y \<noteq> 0"
  then have "(x + y * of_int k) / y = x / y + of_int k"
    by (simp add: field_simps)
  then have "\<lfloor>(x + y * of_int k) / y\<rfloor> = \<lfloor>x / y\<rfloor> + k"
    by simp
  then show ?thesis by (simp add: rmod_def algebra_simps)
qed

lemma rmod_complement: "y \<noteq> 0 \<Longrightarrow> rmod (x + (y - rmod x y)) y = 0"
proof -
  assume y: "y \<noteq> 0"
  have "x + (y - rmod x y) = y * of_int (\<lfloor>x / y\<rfloor> + 1)"
    by (simp add: rmod_def algebra_simps)
  then show ?thesis
    by (simp only: rmod_multiple [OF y])
qed

lemma elapsed_split: "elapsed t = 86400 * real (day t) + seconds_in_hour t"
  by (simp add: elapsed_def seconds_in_hour_def)

lemma elapsed_nonneg: "0 \<le> elapsed t"
  by (simp add: elapsed_def)

lemma elapsed_whole: "microsecond t = 0 \<Longrightarrow> elapsed t = real (whole_seconds t)"
  by (simp add: elapsed_def whole_seconds_def)

lemma rmod_nat: "0 < n \<Longrightarrow> rmod (real a) (real n) = real (a mod n)"
proof -
  assume n: "0 < n"
  have "\<lfloor>real a / real n\<rfloor> = int (a div n)"
    by (simp add: floor_divide_of_nat_eq)
  then have "rmod (real a) (real n) = real a - real n * real (a div n)"
    by (simp add: rmod_def)
  also have "\<dots> = real (a - n * (a div n))"
    by (simp add: of_nat_diff)
  also have "a - n * (a div n) = a mod n"
    by (simp add: minus_mult_div_eq_mod)
  finally show ?thesis .
qed

lemma c_fmod_rmod: "0 \<le> x \<Longrightarrow> 0 < y \<Longrightarrow> c_fmod x y = rmod x y"
  by (simp add: c_fmod_def rmod_def trunc_def)

lemma float_mod_positive:
  assumes "0 \<le> x" "0 < real_of_double y"
  shows "float_mod (Finite x) (Finite y) = Inr (Finite (rmod x (real_of_double y)))"
  using assms rmod_nonneg [OF assms(2), of x]
  by (simp add: float_mod_def Let_def c_fmod_rmod)

lemma float_sub_positive:
  assumes "0 \<le> r" "r < real_of_double y"
  shows "float_sub (Finite y) (Finite r) = Finite (round_real (real_of_double y - r))"
    and "0 \<le> round_real (real_of_double y - r)"
    and "round_real (real_of_double y - r) \<le> real_of_double y"
proof -
  let ?z = "real_of_double y - r"
  have z: "0 < ?z" "?z \<le> real_of_double y" using assms by simp_all
  show lo: "0 \<le> round_real ?z" using z(1) by (intro round_real_nonneg) simp
  show hi: "round_real ?z \<le> real_of_double y"
    using z is_double_interval by (rule round_real_le_double)
  have "real_of_double y < 2 ^ 1024"
    using is_double_less [OF is_double_interval, of y] by simp
  with lo hi show "float_sub (Finite y) (Finite r) = Finite (round_real ?z)"
    by (simp add: to_float_def Let_def)
qed

lemma elapsed_truediv:
  "timedelta_truediv
     (timedelta (int (day t)) (int (minute t)) (int (second t)) (int (microsecond t)))
     (timedelta 0 0 1 0)
   = (if 2 ^ 1024 \<le> \<bar>round_real (elapsed t)\<bar> then Inl OverflowError
      else Inr (round_real (elapsed t)))"
proof -
  have "real_of_int (timedelta (int (day t)) (int (minute t)) (int (second t))
                      (int (microsecond t))) / real_of_int (timedelta 0 0 1 0) = elapsed t"
    by (simp add: timedelta_def elapsed_def field_simps)
  moreover have "timedelta 0 0 1 0 \<noteq> 0" by (simp add: timedelta_def)
  ultimately show ?thesis by (simp add: timedelta_truediv_def Let_def)
qed

lemma seconds_plain_wait:
  "seconds_until_announcement t ival = Inr v \<Longrightarrow> plain_wait t ival = Inr v"
  by (auto simp: seconds_until_announcement_def plain_wait_def elapsed_truediv
           split: if_splits sum.splits)

text \<open>The wait for a positive finite interval.\<close>

lemma plain_wait_positive:
  assumes "0 < real_of_double y"
  shows "plain_wait t (Finite y)
           = Inr (Finite (round_real (real_of_double y
                                       - rmod (round_real (elapsed t)) (real_of_double y))))"
    and "0 \<le> round_real (real_of_double y - rmod (round_real (elapsed t)) (real_of_double y))"
    and "round_real (real_of_double y - rmod (round_real (elapsed t)) (real_of_double y))
           \<le> real_of_double y"
proof -
  let ?E = "round_real (elapsed t)"
  let ?r = "rmod ?E (real_of_double y)"
  have E: "0 \<le> ?E" by (intro round_real_nonneg elapsed_nonneg)
  have r: "0 \<le> ?r" "?r < real_of_double y"
    using rmod_nonneg [OF assms] rmod_less [OF assms] by simp_all
  show "plain_wait t (Finite y) = Inr (Finite (round_real (real_of_double y - ?r)))"
    using float_sub_positive(1) [OF r]
    by (simp add: plain_wait_def float_mod_positive [OF E assms])
  show "0 \<le> round_real (real_of_double y - ?r)" by (rule float_sub_positive(2) [OF r])
  show "round_real (real_of_double y - ?r) \<le> real_of_double y"
    by (rule float_sub_positive(3) [OF r])
qed

subsection \<open>Traces\<close>

lemma gets_append: "gets (xs @ ys) = gets xs @ gets ys"
  by (induction xs rule: gets.induct) simp_all

lemma posts_append: "posts (xs @ ys) = posts xs @ posts ys"
  by (induction xs rule: posts.induct) simp_all

subsection \<open>The requests of a cycle\<close>

lemma getitem_no_timeout: "getitem j k \<noteq> Inl Timeout"
  by (cases j) (auto split: option.splits)

lemma try_get_online:
  "try_request get_online w s =
     (case get_outcome w of
        Raises e \<Rightarrow> if e = Timeout then (Inr (PBool False), [Get (streams_request s)])
                    else (Inl e, [Get (streams_request s)])
      | Returns r \<Rightarrow>
          if status_code r = 200 then
            (case parsed r of
               None \<Rightarrow> (Inl JSONDecodeError, [Get (streams_request s)])
             | Some j \<Rightarrow> (getitem j ''data'', [Get (streams_request s)]))
          else (Inr (PBool False), [Get (streams_request s)]))"
  by (cases "get_outcome w")
     (auto simp: try_request_def get_online_def check_status_code_def getitem_no_timeout
           split: option.splits sum.splits)

lemma try_post_announce:
  "try_request post_announce w s =
     (if index s < length (announcements s) then
        (case post_outcome w of
           Raises e \<Rightarrow>
             if e = Timeout
             then (Inr (PBool False), [Post (announcement_request s (announcements s ! index s))])
             else (Inl e, [Post (announcement_request s (announcements s ! index s))])
         | Returns r \<Rightarrow>
             (Inr (PBool (status_code r = 204)),
              [Post (announcement_request s (announcements s ! index s))]))
      else (Inl IndexError, []))"
  by (cases "post_outcome w")
     (auto simp: try_request_def post_announce_def get_announcement_def check_status_code_def)

lemma announce_eq:
  "announce w s =
     (if index s < length (announcements s) then
        (case post_outcome w of
           Raises e \<Rightarrow>
             if e = Timeout
             then (Inr s, [Post (announcement_request s (announcements s ! index s))])
             else (Inl e, [Post (announcement_request s (announcements s ! index s))])
         | Returns r \<Rightarrow>
             (Inr (if status_code r = 204
                   then s\<lparr>index := (index s + 1) mod length (announcements s)\<rparr> else s),
              [Post (announcement_request s (announcements s ! index s))]))
      else (Inl IndexError, []))"
  by (cases "post_outcome w")
     (auto simp: announce_def try_post_announce get_announcement_def)

lemma gets_announce: "gets (snd (announce w s)) = []"
  by (auto simp: announce_eq split: outcome.splits)

lemma sleeps_announce: "sleeps (snd (announce w s)) = []"
  by (auto simp: announce_eq split: outcome.splits)

lemma posts_announce:
  "posts (snd (announce w s)) =
     (if index s < length (announcements s)
      then [announcement_request s (announcements s ! index s)] else [])"
  by (auto simp: announce_eq split: outcome.splits)

lemma check_and_announce_eq:
  "check_and_announce w s =
     (if ignore_offline s then
        (case try_request get_online w s of
           (Inl e, ev1) \<Rightarrow> (Inl e, [Get (streams_request s)])
         | (Inr v, ev1) \<Rightarrow>
             if \<not> truthy v then (Inr s, [Get (streams_request s)])
             else (fst (announce w s), Get (streams_request s) # snd (announce w s)))
      else announce w s)"
  by (auto simp: check_and_announce_def try_get_online
           split: outcome.splits option.splits sum.splits prod.splits)

lemma sleeps_check_and_announce: "sleeps (snd (check_and_announce w s)) = []"
  by (auto simp: check_and_announce_eq sleeps_announce split: prod.splits sum.splits)

lemma gets_check_and_announce:
  "gets (snd (check_and_announce w s)) = (if ignore_offline s then [streams_request s] else [])"
  by (auto simp: check_and_announce_eq gets_announce split: prod.splits sum.splits)

lemma posts_check_and_announce:
  "posts (snd (check_and_announce w s)) =
     (if (ignore_offline s \<longrightarrow> confirmed_online w) \<and> index s < length (announcements s)
      then [announcement_request s (announcements s ! index s)] else [])"
  by (auto simp: check_and_announce_eq posts_announce try_get_online confirmed_online_def
           split: outcome.splits option.splits sum.splits prod.splits if_splits)

text \<open>A cycle either raises before it has slept, or sleeps and goes on to the requests.\<close>

lemma send_announcement_shape:
  "(\<exists>e. send_announcement w s = (Inl e, [])) \<or>
   (\<exists>d. 0 \<le> d \<and>
      send_announcement w s =
        (fst (check_and_announce w s), Sleep d # snd (check_and_announce w s)))"
  by (auto simp: send_announcement_def sleep_def Let_def
           split: sum.splits prod.splits pyfloat.splits option.splits if_splits)

lemma send_announcement_slept:
  "sleeps (snd (send_announcement w s)) = [] \<or>
   (\<exists>d. 0 \<le> d \<and> sleeps (snd (send_announcement w s)) = [d]
      \<and> seconds_until_announcement (now w) (interval s) = Inr (Finite d)
      \<and> send_announcement w s =
            (fst (check_and_announce w s), Sleep d # snd (check_and_announce w s)))"
  using sleeps_check_and_announce [of w s]
  by (auto simp: send_announcement_def sleep_def Let_def
           split: sum.splits prod.splits pyfloat.splits option.splits if_splits)

subsection \<open>The result of a cycle and of the loop\<close>

lemma fst_check_and_announce:
  "fst (check_and_announce w s) = Inr s' \<Longrightarrow>
     s' = (if posts (snd (check_and_announce w s)) \<noteq> [] \<and> post_succeeds w
           then s\<lparr>index := (index s + 1) mod length (announcements s)\<rparr> else s)"
  by (auto simp: check_and_announce_eq announce_eq post_succeeds_def
           split: if_splits prod.splits sum.splits outcome.splits)

lemma check_and_announce_success:
  "posts (snd (check_and_announce w s)) \<noteq> [] \<Longrightarrow> post_succeeds w \<Longrightarrow>
     fst (check_and_announce w s) = Inr (s\<lparr>index := (index s + 1) mod length (announcements s)\<rparr>)"
  by (auto simp: check_and_announce_eq announce_eq post_succeeds_def
           split: if_splits prod.splits sum.splits outcome.splits)

lemma check_and_announce_failure:
  "posts (snd (check_and_announce w s)) \<noteq> [] \<Longrightarrow> post_fails w \<Longrightarrow>
     fst (check_and_announce w s) = Inr s"
  by (auto simp: check_and_announce_eq announce_eq post_fails_def
           split: if_splits prod.splits sum.splits outcome.splits)

lemma posts_send_announcement:
  "posts (snd (send_announcement w s)) = [] \<or>
   posts (snd (send_announcement w s)) = [announcement_request s (announcements s ! index s)]
   \<and> posts (snd (check_and_announce w s)) = [announcement_request s (announcements s ! index s)]
   \<and> fst (send_announcement w s) = fst (check_and_announce w s)"
  using send_announcement_shape [of w s]
  by (auto simp: posts_check_and_announce)

lemma fst_send_announcement:
  "fst (send_announcement w s) = Inr s' \<Longrightarrow>
     fst (check_and_announce w s) = Inr s'
     \<and> posts (snd (send_announcement w s)) = posts (snd (check_and_announce w s))"
  using send_announcement_shape [of w s] by auto

lemma config_preserved:
  "fst (send_announcement w s) = Inr s' \<Longrightarrow>
     ignore_offline s' = ignore_offline s \<and> interval s' = interval s
     \<and> announcements s' = announcements s"
  using fst_send_announcement [of w s s'] fst_check_and_announce [of w s s']
  by (auto split: if_splits)

lemma index_preserved:
  assumes "index s < length (announcements s)" "fst (send_announcement w s) = Inr s'"
  shows "index s' < length (announcements s')"
proof -
  have "0 < length (announcements s)" using assms(1) by linarith
  then have "(index s + 1) mod length (announcements s) < length (announcements s)"
    by (rule mod_less_divisor)
  with assms show ?thesis
    using fst_send_announcement [of w s s'] fst_check_and_announce [of w s s']
    by (auto split: if_splits)
qed

lemma run_invariant:
  "index s < length (announcements s) \<Longrightarrow> fst (run ws s) = Inr s' \<Longrightarrow>
     index s' < length (announcements s')"
proof (induction ws arbitrary: s)
  case Nil
  then show ?case by simp
next
  case (Cons w ws)
  obtain r tr where c: "send_announcement w s = (r, tr)" by (cases "send_announcement w s")
  show ?case
  proof (cases r)
    case (Inl e)
    with c Cons.prems show ?thesis by simp
  next
    case (Inr s1)
    with c have "index s1 < length (announcements s1)"
      using index_preserved [of s w s1] Cons.prems(1) by simp
    moreover from c Inr Cons.prems(2) have "fst (run ws s1) = Inr s'"
      by (simp add: case_prod_unfold)
    ultimately show ?thesis by (rule Cons.IH)
  qed
qed

lemma gets_send_announcement:
  "\<not> ignore_offline s \<Longrightarrow> gets (snd (send_announcement w s)) = []"
  using send_announcement_shape [of w s] by (auto simp: gets_check_and_announce)

lemma run_gets:
  "\<not> ignore_offline s \<Longrightarrow> gets (snd (run ws s)) = []"
proof (induction ws arbitrary: s)
  case Nil
  then show ?case by simp
next
  case (Cons w ws)
  obtain r tr where c: "send_announcement w s = (r, tr)" by (cases "send_announcement w s")
  then have g: "gets tr = []" using gets_send_announcement [OF Cons.prems, of w] by simp
  show ?case
  proof (cases r)
    case (Inl e)
    with c g show ?thesis by simp
  next
    case (Inr s1)
    with c have "\<not> ignore_offline s1" using config_preserved [of w s s1] Cons.prems by simp
    then have "gets (snd (run ws s1)) = []" by (rule Cons.IH)
    with c Inr g show ?thesis by (simp add: case_prod_unfold gets_append)
  qed
qed

lemma check_and_announce_offline:
  "ignore_offline s \<Longrightarrow> not_confirmed_online w \<Longrightarrow>
     check_and_announce w s = (Inr s, [Get (streams_request s)])"
  by (auto simp: check_and_announce_eq try_get_online not_confirmed_online_def
           split: outcome.splits option.splits sum.splits)

lemma gets_send_announcement_nonempty:
  "gets (snd (send_announcement w s)) \<noteq> [] \<Longrightarrow>
     ignore_offline s \<and> fst (send_announcement w s) = fst (check_and_announce w s)"
  using send_announcement_shape [of w s]
  by (auto simp: gets_check_and_announce split: if_splits)

lemma status_check_raises:
  "ignore_offline s \<Longrightarrow> get_outcome w = Raises e \<Longrightarrow>
     fst (check_and_announce w s) = (if e = Timeout then Inr s else Inl e)"
  by (simp add: check_and_announce_eq try_get_online)

lemma post_raises:
  "posts (snd (check_and_announce w s)) \<noteq> [] \<Longrightarrow> post_outcome w = Raises e \<Longrightarrow>
     fst (check_and_announce w s) = (if e = Timeout then Inr s else Inl e)"
  by (auto simp: check_and_announce_eq announce_eq
           split: if_splits prod.splits sum.splits)

lemma getitem_lacks_data:
  "parsed resp = Some j \<Longrightarrow> lacks_data resp \<Longrightarrow>
     getitem j ''data'' = Inl KeyError \<or> getitem j ''data'' = Inl TypeError"
  by (cases j) (auto simp: lacks_data_def map_of_eq_None_iff split: option.splits)

lemma slept_posts:
  assumes "sleeps (snd (send_announcement w s)) \<noteq> []"
  shows "posts (snd (send_announcement w s)) = posts (snd (check_and_announce w s))"
    and "gets (snd (send_announcement w s)) = gets (snd (check_and_announce w s))"
    and "fst (send_announcement w s) = fst (check_and_announce w s)"
  using assms send_announcement_slept [of w s] by auto

lemma returned_slept:
  "fst (send_announcement w s) = Inr s' \<Longrightarrow> sleeps (snd (send_announcement w s)) \<noteq> []"
  using send_announcement_shape [of w s] by auto

lemma posts_cycle_le: "length (posts (snd (send_announcement w s))) \<le> 1"
  using posts_send_announcement [of w s] by auto

lemma posts_run_le: "length (posts (snd (run ws s))) \<le> length ws"
proof (induction ws arbitrary: s)
  case Nil
  then show ?case by simp
next
  case (Cons w ws)
  obtain r tr where c: "send_announcement w s = (r, tr)" by (cases "send_announcement w s")
  then have p: "length (posts tr) \<le> 1" using posts_cycle_le [of w s] by simp
  show ?case
  proof (cases r)
    case (Inl e)
    with c p show ?thesis by simp
  next
    case (Inr s1)
    with c p Cons.IH [of s1] show ?thesis
      by (simp add: case_prod_unfold posts_append)
  qed
qed

text \<open>A loop in which every cycle posted, and every post succeeded.\<close>

lemma run_all_posted:
  "fst (run ws s) = Inr s' \<Longrightarrow> length (posts (snd (run ws s))) = length ws \<Longrightarrow>
   \<forall>w \<in> set ws. post_succeeds w \<Longrightarrow>
   index s mod length (announcements s) = index s \<Longrightarrow>
     index s' = (index s + length ws) mod length (announcements s)"
proof (induction ws arbitrary: s)
  case Nil
  then show ?case by simp
next
  case (Cons w ws)
  obtain r tr where c: "send_announcement w s = (r, tr)" by (cases "send_announcement w s")
  from c Cons.prems(1) obtain s1 where r: "r = Inr s1" by (cases r) simp_all
  from c r Cons.prems(1) have f: "fst (run ws s1) = Inr s'" by (simp add: case_prod_unfold)
  from c r Cons.prems(2)
  have "length (posts tr) + length (posts (snd (run ws s1))) = 1 + length ws"
    by (simp add: case_prod_unfold posts_append)
  moreover have "length (posts tr) \<le> 1" using posts_cycle_le [of w s] c by simp
  moreover have "length (posts (snd (run ws s1))) \<le> length ws" by (rule posts_run_le)
  ultimately have p: "length (posts tr) = 1" "length (posts (snd (run ws s1))) = length ws"
    by simp_all
  from p(1) c have "posts (snd (check_and_announce w s)) \<noteq> []"
    and "r = fst (check_and_announce w s)"
    using posts_send_announcement [of w s] by auto
  with Cons.prems(3) r
  have s1: "s1 = s\<lparr>index := (index s + 1) mod length (announcements s)\<rparr>"
    using check_and_announce_success [of w s] by simp
  have "index s' = (index s1 + length ws) mod length (announcements s1)"
    using f p(2) Cons.prems(3) by (intro Cons.IH) (simp_all add: s1)
  then show ?case
    by (simp add: s1 mod_add_left_eq)
qed

lemma run_posts_count:
  "\<not> ignore_offline s \<Longrightarrow> index s < length (announcements s) \<Longrightarrow>
   fst (run ws s) = Inr s' \<Longrightarrow> length (posts (snd (run ws s))) = length ws"
proof (induction ws arbitrary: s)
  case Nil
  then show ?case by simp
next
  case (Cons w ws)
  obtain r tr where c: "send_announcement w s = (r, tr)" by (cases "send_announcement w s")
  from c Cons.prems(3) obtain s1 where r: "r = Inr s1" by (cases r) simp_all
  with c have f: "fst (send_announcement w s) = Inr s1" by simp
  have "posts tr = posts (snd (check_and_announce w s))"
    using slept_posts(1) [OF returned_slept [OF f]] c by simp
  then have p: "length (posts tr) = 1"
    using Cons.prems(1,2) by (simp add: posts_check_and_announce)
  have "length (posts (snd (run ws s1))) = length ws"
  proof (rule Cons.IH)
    show "\<not> ignore_offline s1" using config_preserved [OF f] Cons.prems(1) by simp
    show "index s1 < length (announcements s1)" using index_preserved [OF Cons.prems(2) f] .
    show "fst (run ws s1) = Inr s'" using c r Cons.prems(3) by (simp add: case_prod_unfold)
  qed
  with c r p show ?case by (simp add: case_prod_unfold posts_append)
qed

text \<open>
  A cycle on whole numbers: an interval of \<open>n\<close> seconds and a clock reading without
  microseconds. Every float of the computation is then a whole number below \<open>2^53\<close>, so
  nothing is rounded.
\<close>

lemma seconds_whole:
  assumes "interval s = Finite y" "real_of_double y = real n" "0 < n" "n < 2 ^ 53"
    and "microsecond (now w) = 0" "whole_seconds (now w) < 2 ^ 53"
  shows "seconds_until_announcement (now w) (interval s)
           = Inr (Finite (real (n - whole_seconds (now w) mod n)))"
proof -
  let ?a = "whole_seconds (now w)"
  have E: "round_real (elapsed (now w)) = real ?a"
    using assms(5,6) by (simp add: elapsed_whole round_real_nat)
  have lt: "real ?a < 2 ^ 1024"
  proof -
    have "real ?a < 2 ^ 53" using assms(6) by (metis of_nat_less_numeral_power_cancel_iff)
    also have "\<dots> \<le> (2::real) ^ 1024" by (intro power_increasing) simp_all
    finally show ?thesis .
  qed
  have pos: "0 < real_of_double y" using assms(2,3) by simp
  have m: "float_mod (Finite (real ?a)) (Finite y) = Inr (Finite (real (?a mod n)))"
    using float_mod_positive [OF _ pos, of "real ?a"] assms(2,3) by (simp add: rmod_nat)
  have r: "0 \<le> real (?a mod n)" "real (?a mod n) < real_of_double y"
    using assms(2,3) by simp_all
  have "real_of_double y - real (?a mod n) = real (n - ?a mod n)"
    using assms(2,3) by (simp add: of_nat_diff less_imp_le)
  moreover have "n - ?a mod n < 2 ^ 53" using assms(4) by simp
  ultimately have "float_sub (Finite y) (Finite (real (?a mod n)))
                     = Finite (real (n - ?a mod n))"
    using float_sub_positive(1) [OF r] by (simp add: round_real_nat)
  with m lt show ?thesis
    by (simp add: seconds_until_announcement_def elapsed_truediv E assms(1))
qed

lemma cycle_whole:
  assumes "interval s = Finite y" "real_of_double y = real n" "0 < n" "n \<le> 9000000"
    and "microsecond (now w) = 0" "whole_seconds (now w) < 2 ^ 53" "sleep_outcome w = None"
  shows "send_announcement w s =
           (fst (check_and_announce w s),
            Sleep (real (n - whole_seconds (now w) mod n)) # snd (check_and_announce w s))"
proof -
  let ?d = "n - whole_seconds (now w) mod n"
  have n53: "n < 2 ^ 53" using assms(4) by simp
  have d: "?d \<le> 9000000" using assms(4) by simp
  have "rhe (real ?d * 1000000) = int (?d * 1000000)"
    using rhe_of_int [of "int (?d * 1000000)"] by simp
  moreover have "int (?d * 1000000) div 86400000000 \<le> 999999999" using d by simp
  moreover have "0 \<le> int (?d * 1000000) div 86400000000" by simp
  ultimately have td: "timedelta_seconds (Finite (real ?d)) = Inr ()"
    by (simp add: timedelta_seconds_def Let_def)
  have "?d * 1000000000 < 2 ^ 53" using d by simp
  then have "round_real (real ?d * 1000000000) = real (?d * 1000000000)"
    using round_real_nat [of "?d * 1000000000"] by simp
  moreover have "real (?d * 1000000000) < 2 ^ 63"
  proof -
    have "?d * 1000000000 < 2 ^ 63" using d by simp
    then show ?thesis by (metis of_nat_less_numeral_power_cancel_iff)
  qed
  ultimately have sl: "sleep w (Finite (real ?d)) = (Inr (), [Sleep (real ?d)])"
    using assms(7) by (simp add: sleep_def Let_def)
  show ?thesis
    by (simp add: send_announcement_def seconds_whole [OF assms(1,2,3) n53 assms(5,6)] td sl
             case_prod_unfold)
qed

lemma cycle_whole_success:
  assumes "interval s = Finite y" "real_of_double y = real n" "0 < n" "n \<le> 9000000"
    and "microsecond (now w) = 0" "whole_seconds (now w) < 2 ^ 53" "sleep_outcome w = None"
    and "index s < length (announcements s)" "post_succeeds w"
    and "ignore_offline s \<longrightarrow> confirmed_online w"
  shows "fst (send_announcement w s)
           = Inr (s\<lparr>index := (index s + 1) mod length (announcements s)\<rparr>)"
    and "length (posts (snd (send_announcement w s))) = 1"
proof -
  have p: "posts (snd (check_and_announce w s))
             = [announcement_request s (announcements s ! index s)]"
    using assms(8,10) by (simp add: posts_check_and_announce)
  then have "fst (check_and_announce w s)
               = Inr (s\<lparr>index := (index s + 1) mod length (announcements s)\<rparr>)"
    using check_and_announce_success [of w s] assms(9) by simp
  then show "fst (send_announcement w s)
               = Inr (s\<lparr>index := (index s + 1) mod length (announcements s)\<rparr>)"
    by (simp add: cycle_whole [OF assms(1-7)])
  show "length (posts (snd (send_announcement w s))) = 1"
    by (simp add: cycle_whole [OF assms(1-7)] p)
qed

lemma run_step:
  assumes "fst (send_announcement w s) = Inr s1"
  shows "fst (run (w # ws) s) = fst (run ws s1)"
    and "posts (snd (run (w # ws) s))
           = posts (snd (send_announcement w s)) @ posts (snd (run ws s1))"
  using assms by (simp_all add: case_prod_unfold posts_append)

text \<open>
  A wait that is rounded: at 20:00:00.000001 on the 17th, with an interval of 300 seconds,
  the quotient of the durations, the remainder and the difference are the doubles that
  Python computes.
\<close>

lemma rounded_wait_example:
  "seconds_until_announcement
     \<lparr>year = 2024, month = 5, day = 17, hour = 20, minute = 0, second = 0, microsecond = 1\<rparr>
     (Finite (Abs_double 300))
   = Inr (Finite (1288490184505 / 4294967296))"
proof -
  let ?t = "\<lparr>year = 2024, month = 5, day = 17, hour = 20, minute = 0, second = 0,
              microsecond = 1\<rparr>"
  have e: "elapsed ?t = 1468800000001 / 1000000" by (simp add: elapsed_def)
  have E: "round_real (1468800000001 / 1000000) = 6308447964369095 / 4294967296"
    by code_simp
  have y: "real_of_double (Abs_double 300) = 300" using real_of_double_nat [of 300] by simp
  have m: "c_fmod (6308447964369095 / 4294967296) 300 = 4295 / 4294967296"
    by (simp add: c_fmod_def trunc_def)
  have W: "round_real (1288490184505 / 4294967296) = 1288490184505 / 4294967296"
    by code_simp
  have fm: "float_mod (Finite (6308447964369095 / 4294967296)) (Finite (Abs_double 300))
          = Inr (Finite (4295 / 4294967296))"
    by (simp add: float_mod_def Let_def y m)
  have fs: "float_sub (Finite (Abs_double 300)) (Finite (4295 / 4294967296))
              = Finite (1288490184505 / 4294967296)"
    by (simp add: to_float_def Let_def y W)
  have td: "timedelta_truediv
              (timedelta (int (day ?t)) (int (minute ?t)) (int (second ?t)) (int (microsecond ?t)))
              (timedelta 0 0 1 0) = Inr (6308447964369095 / 4294967296)"
    unfolding elapsed_truediv e E by simp
  show ?thesis
    unfolding seconds_until_announcement_def td by (simp only: sum.case fm fs)
qed

section \<open>The properties\<close>

subsection \<open>The wait before a cycle's requests\<close>

text \<open>
  C1 (as amended). Whenever a cycle sleeps, the duration passed to the sleep is
  \<open>interval - (elapsed mod interval)\<close> in Python's float arithmetic, with no outer modulo;
  \<open>elapsed\<close> is the float nearest to the number of seconds that the day, minute, second
  and microsecond fields of the clock reading stand for. For a positive finite interval
  the duration lies between 0 and the interval; \<open>(interval - elapsed mod interval) mod
  interval\<close> is the same value when the duration is below the interval and is 0 when the
  duration is the whole interval, which is what the cycle sleeps whenever \<open>elapsed\<close> is
  a multiple of the interval.
\<close>

theorem wait_formula:
  "\<forall>d \<in> set (sleeps (snd (send_announcement w s))).
     plain_wait (now w) (interval s) = Inr (Finite d)
     \<and> (\<forall>y. interval s = Finite y \<and> 0 < real_of_double y \<longrightarrow>
            0 \<le> d \<and> d \<le> real_of_double y
            \<and> claimed_wait (now w) (interval s)
                = Inr (Finite (if d = real_of_double y then 0 else d))
            \<and> (rmod (round_real (elapsed (now w))) (real_of_double y) = 0
                 \<longrightarrow> d = real_of_double y))"
proof (intro ballI conjI allI impI)
  fix d assume "d \<in> set (sleeps (snd (send_announcement w s)))"
  then have "seconds_until_announcement (now w) (interval s) = Inr (Finite d)"
    using send_announcement_slept [of w s] by auto
  then show p: "plain_wait (now w) (interval s) = Inr (Finite d)"
    by (rule seconds_plain_wait)
  fix y assume "interval s = Finite y \<and> 0 < real_of_double y"
  then have i: "interval s = Finite y" and pos: "0 < real_of_double y" by simp_all
  let ?r = "rmod (round_real (elapsed (now w))) (real_of_double y)"
  have d: "d = round_real (real_of_double y - ?r)"
    using p plain_wait_positive(1) [OF pos, of "now w"] by (simp add: i)
  show lo: "0 \<le> d" using plain_wait_positive(2) [OF pos, of "now w"] by (simp add: d)
  show hi: "d \<le> real_of_double y"
    using plain_wait_positive(3) [OF pos, of "now w"] by (simp add: d)
  have "rmod d (real_of_double y) = (if d = real_of_double y then 0 else d)"
    using lo hi pos by (simp add: rmod_small rmod_self)
  then show "claimed_wait (now w) (interval s)
               = Inr (Finite (if d = real_of_double y then 0 else d))"
    using p float_mod_positive [OF lo pos] by (simp add: claimed_wait_def i)
  show "d = real_of_double y" if "?r = 0"
    using that by (simp add: d round_real_double is_double_interval)
qed

text \<open>At 20:03:20 on the 17th, with an interval of 300 seconds, the cycle sleeps 100 seconds.\<close>

theorem wait_formula_witness:
  "sleeps (snd (send_announcement
      \<lparr>now = \<lparr>year = 2024, month = 5, day = 17, hour = 20, minute = 3, second = 20,
               microsecond = 0\<rparr>,
        sleep_outcome = None, get_outcome = Raises Timeout,
        post_outcome = Raises Timeout\<rparr>
      (Looper [''A'', ''B'', ''C''] False ''b'' ''m'' (Finite (Abs_double 300)) ''c'' ''t''))) = [100]
   \<and> plain_wait \<lparr>year = 2024, month = 5, day = 17, hour = 20, minute = 3, second = 20,
               microsecond = 0\<rparr>
        (Finite (Abs_double 300)) = Inr (Finite 100)
   \<and> claimed_wait \<lparr>year = 2024, month = 5, day = 17, hour = 20, minute = 3, second = 20,
               microsecond = 0\<rparr>
        (Finite (Abs_double 300)) = Inr (Finite 100)"
proof -
  let ?S = "Looper [''A'', ''B'', ''C''] False ''b'' ''m'' (Finite (Abs_double 300)) ''c'' ''t''"
  let ?W = "\<lparr>now = \<lparr>year = 2024, month = 5, day = 17, hour = 20, minute = 3, second = 20,
               microsecond = 0\<rparr>,
        sleep_outcome = None, get_outcome = Raises Timeout,
        post_outcome = Raises Timeout\<rparr>"
  have i: "interval ?S = Finite (Abs_double 300)" by (simp add: Looper_def)
  have y: "real_of_double (Abs_double 300) = real 300"
    using real_of_double_nat [of 300] by simp
  have c: "send_announcement ?W ?S =
             (fst (check_and_announce ?W ?S),
              Sleep (real (300 - whole_seconds (now ?W) mod 300)) # snd (check_and_announce ?W ?S))"
    by (rule cycle_whole [OF i y]) (simp_all add: whole_seconds_def)
  have sl: "sleeps (snd (send_announcement ?W ?S)) = [100]"
    using c by (simp add: sleeps_check_and_announce whole_seconds_def)
  have y': "real_of_double (Abs_double 300) = 300" using y by simp
  from wait_formula [of ?W ?S] sl
  have "plain_wait (now ?W) (interval ?S) = Inr (Finite 100)
        \<and> claimed_wait (now ?W) (interval ?S)
            = Inr (Finite (if (100::real) = real_of_double (Abs_double 300) then 0 else 100))"
    using i y' by simp
  with sl show ?thesis by (simp add: i y')
qed

text \<open>
  The formula with the outer \<open>mod\<close> fails on the boundary. At 20:00:00 on the 17th, with an
  interval of 300 seconds, the cycle sleeps 300 seconds, and that formula gives 0.
\<close>

theorem claimed_wait_counterexample:
  "sleeps (snd (send_announcement
      \<lparr>now = \<lparr>year = 2024, month = 5, day = 17, hour = 20, minute = 0, second = 0,
               microsecond = 0\<rparr>,
        sleep_outcome = None, get_outcome = Raises Timeout,
        post_outcome = Raises Timeout\<rparr>
      (Looper [''A'', ''B'', ''C''] False ''b'' ''m'' (Finite (Abs_double 300)) ''c'' ''t''))) = [300]
   \<and> claimed_wait \<lparr>year = 2024, month = 5, day = 17, hour = 20, minute = 0, second = 0,
               microsecond = 0\<rparr>
        (Finite (Abs_double 300)) = Inr (Finite 0)"
proof -
  let ?S = "Looper [''A'', ''B'', ''C''] False ''b'' ''m'' (Finite (Abs_double 300)) ''c'' ''t''"
  let ?W = "\<lparr>now = \<lparr>year = 2024, month = 5, day = 17, hour = 20, minute = 0, second = 0,
               microsecond = 0\<rparr>,
        sleep_outcome = None, get_outcome = Raises Timeout,
        post_outcome = Raises Timeout\<rparr>"
  have i: "interval ?S = Finite (Abs_double 300)" by (simp add: Looper_def)
  have y: "real_of_double (Abs_double 300) = real 300"
    using real_of_double_nat [of 300] by simp
  have c: "send_announcement ?W ?S =
             (fst (check_and_announce ?W ?S),
              Sleep (real (300 - whole_seconds (now ?W) mod 300)) # snd (check_and_announce ?W ?S))"
    by (rule cycle_whole [OF i y]) (simp_all add: whole_seconds_def)
  have sl: "sleeps (snd (send_announcement ?W ?S)) = [300]"
    using c by (simp add: sleeps_check_and_announce whole_seconds_def)
  have y': "real_of_double (Abs_double 300) = 300" using y by simp
  have "seconds_until_announcement (now ?W) (interval ?S) = Inr (Finite 300)"
    using send_announcement_slept [of ?W ?S] sl by auto
  then have p: "plain_wait (now ?W) (Finite (Abs_double 300)) = Inr (Finite 300)"
    using seconds_plain_wait [of "now ?W" "interval ?S"] by (simp add: i)
  have "float_mod (Finite 300) (Finite (Abs_double 300)) = Inr (Finite 0)"
    using float_mod_positive [of 300 "Abs_double 300"] by (simp add: y' rmod_self)
  with p sl show ?thesis by (simp add: claimed_wait_def)
qed

text \<open>
  C2 (as amended). For a positive finite interval \<open>I\<close>, the wait \<open>W\<close> of a cycle that sleeps
  satisfies \<open>0 \<le> W \<le> I\<close>. \<open>W\<close> is the double nearest to a real \<open>W*\<close>, \<open>0 < W* \<le> I\<close>, with
  \<open>(E + W*) mod I = 0\<close>, where \<open>E\<close> is the double nearest to \<open>86400 * day + seconds_in_hour\<close>.
  When the clock reading has no microseconds and the interval is a whole number of
  seconds, nothing is rounded: \<open>(86400 * day + seconds_in_hour + W) mod I = 0\<close>, and
  \<open>(seconds_in_hour + W) mod I = 0\<close> whenever \<open>86400 * day\<close> is a multiple of \<open>I\<close>, as it is
  for every interval that divides a day.
\<close>

theorem wait_bounds_aligned:
  assumes "interval s = Finite y" "0 < real_of_double y"
  shows "\<forall>d \<in> set (sleeps (snd (send_announcement w s))).
           0 \<le> d \<and> d \<le> real_of_double y
           \<and> (\<exists>W. d = round_real W \<and> 0 < W \<and> W \<le> real_of_double y
                  \<and> rmod (round_real (86400 * real (day (now w)) + seconds_in_hour (now w)) + W)
                       (real_of_double y) = 0)
           \<and> (microsecond (now w) = 0 \<and> whole_seconds (now w) < 2 ^ 53
                 \<and> (\<exists>n < 2 ^ 53. real_of_double y = real n) \<longrightarrow>
                rmod (86400 * real (day (now w)) + seconds_in_hour (now w) + d)
                  (real_of_double y) = 0
                \<and> (\<forall>k::int. 86400 * real (day (now w)) = real_of_double y * of_int k \<longrightarrow>
                       rmod (seconds_in_hour (now w) + d) (real_of_double y) = 0))"
proof (intro ballI conjI impI)
  fix d assume "d \<in> set (sleeps (snd (send_announcement w s)))"
  then have sec: "seconds_until_announcement (now w) (interval s) = Inr (Finite d)"
    using send_announcement_slept [of w s] by auto
  let ?I = "real_of_double y"
  let ?E = "round_real (elapsed (now w))"
  let ?W = "?I - rmod ?E ?I"
  have d: "d = round_real ?W"
    using seconds_plain_wait [OF sec] plain_wait_positive(1) [OF assms(2), of "now w"]
    by (simp add: assms(1))
  show "0 \<le> d" using plain_wait_positive(2) [OF assms(2), of "now w"] by (simp add: d)
  show "d \<le> ?I" using plain_wait_positive(3) [OF assms(2), of "now w"] by (simp add: d)
  have "0 < ?W" using rmod_less [OF assms(2), of ?E] by simp
  moreover have "?W \<le> ?I" using rmod_nonneg [OF assms(2), of ?E] by simp
  moreover have "rmod (?E + ?W) ?I = 0"
    using rmod_complement [of ?I ?E] assms(2) by simp
  ultimately show "\<exists>W. d = round_real W \<and> 0 < W \<and> W \<le> ?I
        \<and> rmod (round_real (86400 * real (day (now w)) + seconds_in_hour (now w)) + W) ?I = 0"
    using d by (auto simp: elapsed_split)
  assume whole: "microsecond (now w) = 0 \<and> whole_seconds (now w) < 2 ^ 53
                 \<and> (\<exists>n < 2 ^ 53. ?I = real n)"
  then obtain n where n: "n < 2 ^ 53" "?I = real n" by blast
  have n0: "0 < n" using assms(2) n(2) by simp
  let ?a = "whole_seconds (now w)"
  have "d = real (n - ?a mod n)"
    using sec seconds_whole [OF assms(1) n(2) n0 n(1), of w] whole by simp
  also have "\<dots> = ?I - rmod (real ?a) ?I"
    using n0 by (simp add: n(2) rmod_nat of_nat_diff less_imp_le)
  finally have dW: "d = ?I - rmod (elapsed (now w)) ?I"
    using whole by (simp add: elapsed_whole)
  show al: "rmod (86400 * real (day (now w)) + seconds_in_hour (now w) + d) ?I = 0"
    using rmod_complement [of ?I "elapsed (now w)"] assms(2)
    by (simp add: dW elapsed_split)
  show "\<forall>k::int. 86400 * real (day (now w)) = ?I * of_int k \<longrightarrow>
          rmod (seconds_in_hour (now w) + d) ?I = 0"
  proof (intro allI impI)
    fix k :: int assume k: "86400 * real (day (now w)) = ?I * of_int k"
    have "rmod (seconds_in_hour (now w) + d + ?I * of_int k) ?I
            = rmod (seconds_in_hour (now w) + d) ?I"
      using assms(2) by (intro rmod_add_multiple) simp
    moreover have "seconds_in_hour (now w) + d + ?I * of_int k
            = 86400 * real (day (now w)) + seconds_in_hour (now w) + d"
      using k by simp
    ultimately show "rmod (seconds_in_hour (now w) + d) ?I = 0" using al by simp
  qed
qed

text \<open>At 20:03:20 on the 17th, with an interval of 300 seconds, which divides a day.\<close>

theorem wait_bounds_aligned_witness:
  "interval (Looper [''A'', ''B'', ''C''] False ''b'' ''m'' (Finite (Abs_double 300)) ''c'' ''t'') = Finite (Abs_double 300)
   \<and> 0 < real_of_double (Abs_double 300)
   \<and> sleeps (snd (send_announcement
      \<lparr>now = \<lparr>year = 2024, month = 5, day = 17, hour = 20, minute = 3, second = 20,
               microsecond = 0\<rparr>,
        sleep_outcome = None, get_outcome = Raises Timeout,
        post_outcome = Raises Timeout\<rparr>
      (Looper [''A'', ''B'', ''C''] False ''b'' ''m'' (Finite (Abs_double 300)) ''c'' ''t''))) = [100]
   \<and> (0::real) \<le> 100 \<and> 100 \<le> real_of_double (Abs_double 300)
   \<and> rmod (86400 * 17 + 200 + 100) (real_of_double (Abs_double 300)) = 0
   \<and> rmod (200 + 100) (real_of_double (Abs_double 300)) = 0"
proof -
  let ?S = "Looper [''A'', ''B'', ''C''] False ''b'' ''m'' (Finite (Abs_double 300)) ''c'' ''t''"
  let ?W = "\<lparr>now = \<lparr>year = 2024, month = 5, day = 17, hour = 20, minute = 3, second = 20,
               microsecond = 0\<rparr>,
        sleep_outcome = None, get_outcome = Raises Timeout,
        post_outcome = Raises Timeout\<rparr>"
  have i: "interval ?S = Finite (Abs_double 300)" by (simp add: Looper_def)
  have y: "real_of_double (Abs_double 300) = real 300"
    using real_of_double_nat [of 300] by simp
  have c: "send_announcement ?W ?S =
             (fst (check_and_announce ?W ?S),
              Sleep (real (300 - whole_seconds (now ?W) mod 300)) # snd (check_and_announce ?W ?S))"
    by (rule cycle_whole [OF i y]) (simp_all add: whole_seconds_def)
  have sl: "sleeps (snd (send_announcement ?W ?S)) = [100]"
    using c by (simp add: sleeps_check_and_announce whole_seconds_def)
  have y': "real_of_double (Abs_double 300) = 300" using y by simp
  have pos: "0 < real_of_double (Abs_double 300)" by (simp add: y')
  have n: "\<exists>n < 2 ^ 53. real_of_double (Abs_double 300) = real n"
    by (rule exI [of _ 300]) (simp add: y')
  have k: "86400 * real (day (now ?W)) = real_of_double (Abs_double 300) * of_int 4896"
    by (simp add: y')
  from wait_bounds_aligned [OF i pos, of ?W] sl n k
  have "(0::real) \<le> 100 \<and> 100 \<le> real_of_double (Abs_double 300)
        \<and> rmod (86400 * real (day (now ?W)) + seconds_in_hour (now ?W) + 100)
              (real_of_double (Abs_double 300)) = 0
        \<and> rmod (seconds_in_hour (now ?W) + 100) (real_of_double (Abs_double 300)) = 0"
    by (simp add: whole_seconds_def)
  with i pos sl show ?thesis by (simp add: seconds_in_hour_def)
qed

text \<open>
  The strict bound and the alignment to the hour fail at 20:00:01 on the 1st with an
  interval of 7 seconds: the cycle sleeps 7 seconds, which is not below the interval, and
  one second into the hour plus the wait is not a multiple of 7.
\<close>

theorem wait_bounds_counterexample:
  "sleeps (snd (send_announcement
      \<lparr>now = \<lparr>year = 2024, month = 5, day = 1, hour = 20, minute = 0, second = 1,
               microsecond = 0\<rparr>,
        sleep_outcome = None, get_outcome = Raises Timeout,
        post_outcome = Raises Timeout\<rparr>
      (Looper [''A'', ''B'', ''C''] False ''b'' ''m'' (Finite (Abs_double 7)) ''c'' ''t''))) = [7]
   \<and> real_of_double (Abs_double 7) = 7
   \<and> \<not> (7 < real_of_double (Abs_double 7))
   \<and> rmod (seconds_in_hour \<lparr>year = 2024, month = 5, day = 1, hour = 20, minute = 0, second = 1,
               microsecond = 0\<rparr> + 7)
        (real_of_double (Abs_double 7)) = 1"
proof -
  let ?S = "Looper [''A'', ''B'', ''C''] False ''b'' ''m'' (Finite (Abs_double 7)) ''c'' ''t''"
  let ?W = "\<lparr>now = \<lparr>year = 2024, month = 5, day = 1, hour = 20, minute = 0, second = 1,
               microsecond = 0\<rparr>,
        sleep_outcome = None, get_outcome = Raises Timeout,
        post_outcome = Raises Timeout\<rparr>"
  have i: "interval ?S = Finite (Abs_double 7)" by (simp add: Looper_def)
  have y: "real_of_double (Abs_double 7) = real 7"
    using real_of_double_nat [of 7] by simp
  have c: "send_announcement ?W ?S =
             (fst (check_and_announce ?W ?S),
              Sleep (real (7 - whole_seconds (now ?W) mod 7)) # snd (check_and_announce ?W ?S))"
    by (rule cycle_whole [OF i y]) (simp_all add: whole_seconds_def)
  have sl: "sleeps (snd (send_announcement ?W ?S)) = [7]"
    using c by (simp add: sleeps_check_and_announce whole_seconds_def)
  have y': "real_of_double (Abs_double 7) = 7" using y by simp
  with sl show ?thesis by (simp add: seconds_in_hour_def rmod_def)
qed

text \<open>
  C9. For every interval above zero and every clock reading, no sleep of a cycle is
  longer than the interval.
\<close>

theorem sleep_at_most_interval:
  assumes "is_positive (interval s)"
  shows "\<forall>d \<in> set (sleeps (snd (send_announcement w s))). at_most d (interval s)"
proof
  fix d assume "d \<in> set (sleeps (snd (send_announcement w s)))"
  then have sec: "seconds_until_announcement (now w) (interval s) = Inr (Finite d)"
    using send_announcement_slept [of w s] by auto
  show "at_most d (interval s)"
  proof (cases "interval s")
    case (Finite y)
    with assms have pos: "0 < real_of_double y" by (simp add: is_positive_def)
    have "d = round_real (real_of_double y - rmod (round_real (elapsed (now w))) (real_of_double y))"
      using seconds_plain_wait [OF sec] plain_wait_positive(1) [OF pos, of "now w"]
      by (simp add: Finite)
    then show ?thesis
      using plain_wait_positive(3) [OF pos, of "now w"] by (simp add: at_most_def Finite)
  qed (use assms in \<open>simp_all add: at_most_def is_positive_def\<close>)
qed

text \<open>One second before the hour, with an interval of 300 seconds, the cycle sleeps 1 second.\<close>

theorem sleep_at_most_interval_witness:
  "is_positive (interval (Looper [''A'', ''B'', ''C''] True ''b'' ''m'' (Finite (Abs_double 300)) ''c'' ''t''))
   \<and> sleeps (snd (send_announcement
      \<lparr>now = \<lparr>year = 2024, month = 5, day = 17, hour = 20, minute = 59, second = 59,
               microsecond = 0\<rparr>,
        sleep_outcome = None, get_outcome = Raises Timeout,
        post_outcome = Raises Timeout\<rparr>
      (Looper [''A'', ''B'', ''C''] True ''b'' ''m'' (Finite (Abs_double 300)) ''c'' ''t''))) = [1]
   \<and> at_most 1 (interval (Looper [''A'', ''B'', ''C''] True ''b'' ''m'' (Finite (Abs_double 300)) ''c'' ''t''))"
proof -
  let ?S = "Looper [''A'', ''B'', ''C''] True ''b'' ''m'' (Finite (Abs_double 300)) ''c'' ''t''"
  let ?W = "\<lparr>now = \<lparr>year = 2024, month = 5, day = 17, hour = 20, minute = 59, second = 59,
               microsecond = 0\<rparr>,
        sleep_outcome = None, get_outcome = Raises Timeout,
        post_outcome = Raises Timeout\<rparr>"
  have i: "interval ?S = Finite (Abs_double 300)" by (simp add: Looper_def)
  have y: "real_of_double (Abs_double 300) = real 300"
    using real_of_double_nat [of 300] by simp
  have c: "send_announcement ?W ?S =
             (fst (check_and_announce ?W ?S),
              Sleep (real (300 - whole_seconds (now ?W) mod 300)) # snd (check_and_announce ?W ?S))"
    by (rule cycle_whole [OF i y]) (simp_all add: whole_seconds_def)
  have sl: "sleeps (snd (send_announcement ?W ?S)) = [1]"
    using c by (simp add: sleeps_check_and_announce whole_seconds_def)
  have p: "is_positive (interval ?S)" using y by (simp add: i is_positive_def)
  from sleep_at_most_interval [OF p, of ?W] sl
  have "at_most 1 (interval ?S)" by simp
  with p sl show ?thesis by simp
qed

subsection \<open>The rotation of the announcements\<close>

text \<open>
  C3. Let a cycle started in state \<open>s\<close> end with result \<open>r\<close> and trace \<open>tr\<close>. If the cycle posted
  and the post was answered with status 204, the cycle returns \<open>s\<close> with the index moved to
  \<open>(index + 1) mod length announcements\<close>. In every other case a cycle that returns, returns
  \<open>s\<close> unchanged. If the cycle posted and the post failed (another status, or a timeout),
  it returns \<open>s\<close>, the one request it posted carried the message \<open>announcements[index]\<close>, and
  every post of a following cycle from \<open>s\<close> is that same request with that same message.
\<close>

theorem rotation_iff_post_success:
  assumes "send_announcement w s = (r, tr)"
  shows "(posts tr \<noteq> [] \<and> post_succeeds w \<longrightarrow>
            r = Inr (s\<lparr>index := (index s + 1) mod length (announcements s)\<rparr>))
         \<and> (\<not> (posts tr \<noteq> [] \<and> post_succeeds w) \<longrightarrow> (\<forall>s'. r = Inr s' \<longrightarrow> s' = s))
         \<and> (posts tr \<noteq> [] \<and> post_fails w \<longrightarrow>
              r = Inr s
              \<and> posts tr = [announcement_request s (announcements s ! index s)]
              \<and> map payload (posts tr) = [[(''message'', announcements s ! index s)]]
              \<and> (\<forall>w'. \<forall>q \<in> set (posts (snd (send_announcement w' s))).
                     q = announcement_request s (announcements s ! index s)
                     \<and> payload q = [(''message'', announcements s ! index s)]))"
proof (intro conjI impI allI ballI)
  assume "posts tr \<noteq> [] \<and> post_succeeds w"
  then show "r = Inr (s\<lparr>index := (index s + 1) mod length (announcements s)\<rparr>)"
    using assms posts_send_announcement [of w s] check_and_announce_success [of w s]
    by auto
next
  fix s' assume "\<not> (posts tr \<noteq> [] \<and> post_succeeds w)" and "r = Inr s'"
  then show "s' = s"
    using assms fst_send_announcement [of w s s'] fst_check_and_announce [of w s s']
    by auto
next
  assume a: "posts tr \<noteq> [] \<and> post_fails w"
  then show "r = Inr s"
    using assms posts_send_announcement [of w s] check_and_announce_failure [of w s]
    by auto
  from a show p: "posts tr = [announcement_request s (announcements s ! index s)]"
    using assms posts_send_announcement [of w s] by auto
  show "map payload (posts tr) = [[(''message'', announcements s ! index s)]]"
    by (simp add: p announcement_request_def)
next
  fix w' q assume "q \<in> set (posts (snd (send_announcement w' s)))"
  then show q: "q = announcement_request s (announcements s ! index s)"
    using posts_send_announcement [of w' s] by auto
  show "payload q = [(''message'', announcements s ! index s)]"
    by (simp add: q announcement_request_def)
qed

text \<open>A cycle whose post is answered with 204 moves the index from 0 to 1.\<close>

theorem rotation_iff_post_success_witness:
  "posts (snd (send_announcement
      \<lparr>now = \<lparr>year = 2024, month = 5, day = 17, hour = 20, minute = 3, second = 20,
               microsecond = 0\<rparr>,
        sleep_outcome = None, get_outcome = Raises Timeout,
        post_outcome = Returns \<lparr>status_code = 204, content = [], parsed = None\<rparr>\<rparr>
      (Looper [''A'', ''B'', ''C''] False ''b'' ''m'' (Finite (Abs_double 300)) ''c'' ''t''))) \<noteq> []
   \<and> post_succeeds
      \<lparr>now = \<lparr>year = 2024, month = 5, day = 17, hour = 20, minute = 3, second = 20,
               microsecond = 0\<rparr>,
        sleep_outcome = None, get_outcome = Raises Timeout,
        post_outcome = Returns \<lparr>status_code = 204, content = [], parsed = None\<rparr>\<rparr>
   \<and> fst (send_announcement
      \<lparr>now = \<lparr>year = 2024, month = 5, day = 17, hour = 20, minute = 3, second = 20,
               microsecond = 0\<rparr>,
        sleep_outcome = None, get_outcome = Raises Timeout,
        post_outcome = Returns \<lparr>status_code = 204, content = [], parsed = None\<rparr>\<rparr>
      (Looper [''A'', ''B'', ''C''] False ''b'' ''m'' (Finite (Abs_double 300)) ''c'' ''t''))
     = Inr ((Looper [''A'', ''B'', ''C''] False ''b'' ''m'' (Finite (Abs_double 300)) ''c'' ''t'')\<lparr>index := 1\<rparr>)"
proof -
  let ?S = "Looper [''A'', ''B'', ''C''] False ''b'' ''m'' (Finite (Abs_double 300)) ''c'' ''t''"
  let ?W = "\<lparr>now = \<lparr>year = 2024, month = 5, day = 17, hour = 20, minute = 3, second = 20,
               microsecond = 0\<rparr>,
        sleep_outcome = None, get_outcome = Raises Timeout,
        post_outcome = Returns \<lparr>status_code = 204, content = [], parsed = None\<rparr>\<rparr>"
  have i: "interval ?S = Finite (Abs_double 300)" by (simp add: Looper_def)
  have y: "real_of_double (Abs_double 300) = real 300"
    using real_of_double_nat [of 300] by simp
  have c: "send_announcement ?W ?S =
             (fst (check_and_announce ?W ?S),
              Sleep (real (300 - whole_seconds (now ?W) mod 300)) # snd (check_and_announce ?W ?S))"
    by (rule cycle_whole [OF i y]) (simp_all add: whole_seconds_def)
  have h: "send_announcement ?W ?S = (fst (send_announcement ?W ?S), snd (send_announcement ?W ?S))"
    by simp
  have p: "posts (snd (send_announcement ?W ?S)) \<noteq> []"
    using c by (simp add: posts_check_and_announce Looper_def)
  have q: "post_succeeds ?W" by (simp add: post_succeeds_def)
  from rotation_iff_post_success [OF h] p q
  have "fst (send_announcement ?W ?S)
          = Inr (?S\<lparr>index := (index ?S + 1) mod length (announcements ?S)\<rparr>)"
    by blast
  with p q show ?thesis by (simp add: Looper_def)
qed

text \<open>
  C4. Start from a freshly constructed looper with \<open>L\<close> announcements and let the loop go
  through \<open>N\<close> cycles, each of which posts, each post being answered with status 204. Then
  the index is \<open>N mod L\<close>.
\<close>

theorem index_after_successes:
  assumes "fst (run ws (Looper anns ign bid mid ival cid tok)) = Inr s'"
    and "length (posts (snd (run ws (Looper anns ign bid mid ival cid tok)))) = length ws"
    and "\<forall>w \<in> set ws. post_succeeds w"
  shows "index s' = length ws mod length anns"
  using run_all_posted [OF assms] by (simp add: Looper_def)

text \<open>Two successful cycles over two announcements bring the index back to 0.\<close>

theorem index_after_successes_witness:
  "fst (run [
      \<lparr>now = \<lparr>year = 2024, month = 5, day = 17, hour = 20, minute = 3, second = 20,
               microsecond = 0\<rparr>,
        sleep_outcome = None, get_outcome = Raises Timeout,
        post_outcome = Returns \<lparr>status_code = 204, content = [], parsed = None\<rparr>\<rparr>,
      \<lparr>now = \<lparr>year = 2024, month = 5, day = 17, hour = 20, minute = 3, second = 20,
               microsecond = 0\<rparr>,
        sleep_outcome = None, get_outcome = Raises Timeout,
        post_outcome = Returns \<lparr>status_code = 204, content = [], parsed = None\<rparr>\<rparr>]
      (Looper [''A'', ''B''] False ''b'' ''m'' (Finite (Abs_double 300)) ''c'' ''t''))
     = Inr ((Looper [''A'', ''B''] False ''b'' ''m'' (Finite (Abs_double 300)) ''c'' ''t'')\<lparr>index := 0\<rparr>)
   \<and> length (posts (snd (run [
      \<lparr>now = \<lparr>year = 2024, month = 5, day = 17, hour = 20, minute = 3, second = 20,
               microsecond = 0\<rparr>,
        sleep_outcome = None, get_outcome = Raises Timeout,
        post_outcome = Returns \<lparr>status_code = 204, content = [], parsed = None\<rparr>\<rparr>,
      \<lparr>now = \<lparr>year = 2024, month = 5, day = 17, hour = 20, minute = 3, second = 20,
               microsecond = 0\<rparr>,
        sleep_outcome = None, get_outcome = Raises Timeout,
        post_outcome = Returns \<lparr>status_code = 204, content = [], parsed = None\<rparr>\<rparr>]
      (Looper [''A'', ''B''] False ''b'' ''m'' (Finite (Abs_double 300)) ''c'' ''t'')))) = 2
   \<and> index ((Looper [''A'', ''B''] False ''b'' ''m'' (Finite (Abs_double 300)) ''c'' ''t'')\<lparr>index := 0\<rparr>) = 2 mod 2"
proof -
  let ?S = "Looper [''A'', ''B''] False ''b'' ''m'' (Finite (Abs_double 300)) ''c'' ''t''"
  let ?W = "\<lparr>now = \<lparr>year = 2024, month = 5, day = 17, hour = 20, minute = 3, second = 20,
               microsecond = 0\<rparr>,
        sleep_outcome = None, get_outcome = Raises Timeout,
        post_outcome = Returns \<lparr>status_code = 204, content = [], parsed = None\<rparr>\<rparr>"
  let ?S1 = "?S\<lparr>index := (index ?S + 1) mod length (announcements ?S)\<rparr>"
  let ?S2 = "?S1\<lparr>index := (index ?S1 + 1) mod length (announcements ?S1)\<rparr>"
  have y: "real_of_double (Abs_double 300) = real 300"
    using real_of_double_nat [of 300] by simp
  have q: "post_succeeds ?W" by (simp add: post_succeeds_def)
  have t: "microsecond (now ?W) = 0" "whole_seconds (now ?W) < 2 ^ 53" "sleep_outcome ?W = None"
    by (simp_all add: whole_seconds_def)
  have f: "interval ?S = Finite (Abs_double 300)" "index ?S = 0"
    "announcements ?S = [''A'', ''B'']" "\<not> ignore_offline ?S"
    by (simp_all add: Looper_def)
  have a0: "fst (send_announcement ?W ?S) = Inr ?S1"
    and b0: "length (posts (snd (send_announcement ?W ?S))) = 1"
    using cycle_whole_success [OF f(1) y _ _ t _ q] f by simp_all
  have a1: "fst (send_announcement ?W ?S1) = Inr ?S2"
    and b1: "length (posts (snd (send_announcement ?W ?S1))) = 1"
    using cycle_whole_success [of ?S1 "Abs_double 300" 300 ?W, OF _ y _ _ t _ q] f by simp_all
  have e: "?S2 = ?S\<lparr>index := 0\<rparr>" by (simp add: f)
  have a: "fst (run [?W, ?W] ?S) = Inr (?S\<lparr>index := 0\<rparr>)"
    using run_step(1) [OF a0, of "[?W]"] run_step(1) [OF a1, of "[]"] e by simp
  have b: "length (posts (snd (run [?W, ?W] ?S))) = length [?W, ?W]"
    using run_step(2) [OF a0, of "[?W]"] run_step(2) [OF a1, of "[]"] b0 b1 by simp
  have "\<forall>w \<in> set [?W, ?W]. post_succeeds w" using q by simp
  from index_after_successes [OF a b this]
  have "index (?S\<lparr>index := 0\<rparr>) = 2 mod 2" using f(3) by simp
  with a b show ?thesis by simp
qed

text \<open>
  C5. With a non-empty list the constructor gives an index within the list; a cycle that
  starts with the index within the list and returns leaves it within the list, and does
  not change the list; so the index is within the list after any number of cycles. (A
  cycle that raises assigns nothing.)
\<close>

theorem index_invariant:
  "(anns \<noteq> [] \<longrightarrow>
      index (Looper anns ign bid mid ival cid tok)
        < length (announcements (Looper anns ign bid mid ival cid tok)))
   \<and> (index s < length (announcements s) \<longrightarrow>
        (\<forall>s'. fst (send_announcement w s) = Inr s' \<longrightarrow>
               index s' < length (announcements s') \<and> announcements s' = announcements s))
   \<and> (anns \<noteq> [] \<longrightarrow>
        (\<forall>s'. fst (run ws (Looper anns ign bid mid ival cid tok)) = Inr s' \<longrightarrow>
               index s' < length (announcements s')))"
proof (intro conjI impI allI)
  assume "anns \<noteq> []"
  then show i: "index (Looper anns ign bid mid ival cid tok)
                  < length (announcements (Looper anns ign bid mid ival cid tok))"
    by (simp add: Looper_def)
  fix s' assume "fst (run ws (Looper anns ign bid mid ival cid tok)) = Inr s'"
  with i show "index s' < length (announcements s')" by (rule run_invariant)
next
  fix s' assume "index s < length (announcements s)" "fst (send_announcement w s) = Inr s'"
  then show "index s' < length (announcements s')" by (rule index_preserved)
next
  fix s' assume "fst (send_announcement w s) = Inr s'"
  then show "announcements s' = announcements s" using config_preserved by blast
qed

text \<open>The first successful cycle over three announcements.\<close>

theorem index_invariant_witness:
  "index (Looper [''A'', ''B'', ''C''] False ''b'' ''m'' (Finite (Abs_double 300)) ''c'' ''t'') < length (announcements (Looper [''A'', ''B'', ''C''] False ''b'' ''m'' (Finite (Abs_double 300)) ''c'' ''t''))
   \<and> fst (send_announcement
      \<lparr>now = \<lparr>year = 2024, month = 5, day = 17, hour = 20, minute = 3, second = 20,
               microsecond = 0\<rparr>,
        sleep_outcome = None, get_outcome = Raises Timeout,
        post_outcome = Returns \<lparr>status_code = 204, content = [], parsed = None\<rparr>\<rparr>
      (Looper [''A'', ''B'', ''C''] False ''b'' ''m'' (Finite (Abs_double 300)) ''c'' ''t''))
     = Inr ((Looper [''A'', ''B'', ''C''] False ''b'' ''m'' (Finite (Abs_double 300)) ''c'' ''t'')\<lparr>index := 1\<rparr>)
   \<and> index ((Looper [''A'', ''B'', ''C''] False ''b'' ''m'' (Finite (Abs_double 300)) ''c'' ''t'')\<lparr>index := 1\<rparr>)
       < length (announcements ((Looper [''A'', ''B'', ''C''] False ''b'' ''m'' (Finite (Abs_double 300)) ''c'' ''t'')\<lparr>index := 1\<rparr>))"
proof -
  let ?S = "Looper [''A'', ''B'', ''C''] False ''b'' ''m'' (Finite (Abs_double 300)) ''c'' ''t''"
  let ?W = "\<lparr>now = \<lparr>year = 2024, month = 5, day = 17, hour = 20, minute = 3, second = 20,
               microsecond = 0\<rparr>,
        sleep_outcome = None, get_outcome = Raises Timeout,
        post_outcome = Returns \<lparr>status_code = 204, content = [], parsed = None\<rparr>\<rparr>"
  have i: "interval ?S = Finite (Abs_double 300)" by (simp add: Looper_def)
  have y: "real_of_double (Abs_double 300) = real 300"
    using real_of_double_nat [of 300] by simp
  have c: "send_announcement ?W ?S =
             (fst (check_and_announce ?W ?S),
              Sleep (real (300 - whole_seconds (now ?W) mod 300)) # snd (check_and_announce ?W ?S))"
    by (rule cycle_whole [OF i y]) (simp_all add: whole_seconds_def)
  have j: "index ?S < length (announcements ?S)" by (simp add: Looper_def)
  have f: "fst (send_announcement ?W ?S) = Inr (?S\<lparr>index := 1\<rparr>)"
    using c by (simp add: check_and_announce_eq announce_eq Looper_def)
  from index_invariant [of "[''A'', ''B'', ''C'']" False "''b''" "''m''"
      "Finite (Abs_double 300)" "''c''" "''t''" ?S ?W "[]"] j f
  have "index (?S\<lparr>index := 1\<rparr>) < length (announcements (?S\<lparr>index := 1\<rparr>))"
    by blast
  with j f show ?thesis by simp
qed

subsection \<open>The online check\<close>

text \<open>
  C6. When \<open>ignore_offline\<close> is set and the status check does not confirm the channel
  online (it timed out, was answered with a status other than 200, or was answered with
  an empty \<open>data\<close>), the cycle issues no post, and if it returns, it returns the state
  unchanged. A cycle that has slept issues the status request and returns.
\<close>

theorem offline_cycle_skips:
  assumes "ignore_offline s" "not_confirmed_online w"
  shows "posts (snd (send_announcement w s)) = []
         \<and> (\<forall>s'. fst (send_announcement w s) = Inr s' \<longrightarrow> s' = s)
         \<and> (sleeps (snd (send_announcement w s)) \<noteq> [] \<longrightarrow>
              fst (send_announcement w s) = Inr s
              \<and> gets (snd (send_announcement w s)) = [streams_request s])"
  using send_announcement_shape [of w s] check_and_announce_offline [OF assms]
  by auto

text \<open>The status check is answered with 200 and an empty \<open>data\<close> list.\<close>

theorem offline_cycle_skips_witness:
  "ignore_offline (Looper [''A'', ''B'', ''C''] True ''b'' ''m'' (Finite (Abs_double 300)) ''c'' ''t'')
   \<and> not_confirmed_online
      \<lparr>now = \<lparr>year = 2024, month = 5, day = 17, hour = 20, minute = 3, second = 20,
               microsecond = 0\<rparr>,
        sleep_outcome = None, get_outcome = Returns \<lparr>status_code = 200, content = [], parsed = Some (PDict [(''data'', PList [])])\<rparr>,
        post_outcome = Returns \<lparr>status_code = 204, content = [], parsed = None\<rparr>\<rparr>
   \<and> sleeps (snd (send_announcement
      \<lparr>now = \<lparr>year = 2024, month = 5, day = 17, hour = 20, minute = 3, second = 20,
               microsecond = 0\<rparr>,
        sleep_outcome = None, get_outcome = Returns \<lparr>status_code = 200, content = [], parsed = Some (PDict [(''data'', PList [])])\<rparr>,
        post_outcome = Returns \<lparr>status_code = 204, content = [], parsed = None\<rparr>\<rparr>
      (Looper [''A'', ''B'', ''C''] True ''b'' ''m'' (Finite (Abs_double 300)) ''c'' ''t''))) = [100]
   \<and> posts (snd (send_announcement
      \<lparr>now = \<lparr>year = 2024, month = 5, day = 17, hour = 20, minute = 3, second = 20,
               microsecond = 0\<rparr>,
        sleep_outcome = None, get_outcome = Returns \<lparr>status_code = 200, content = [], parsed = Some (PDict [(''data'', PList [])])\<rparr>,
        post_outcome = Returns \<lparr>status_code = 204, content = [], parsed = None\<rparr>\<rparr>
      (Looper [''A'', ''B'', ''C''] True ''b'' ''m'' (Finite (Abs_double 300)) ''c'' ''t''))) = []
   \<and> fst (send_announcement
      \<lparr>now = \<lparr>year = 2024, month = 5, day = 17, hour = 20, minute = 3, second = 20,
               microsecond = 0\<rparr>,
        sleep_outcome = None, get_outcome = Returns \<lparr>status_code = 200, content = [], parsed = Some (PDict [(''data'', PList [])])\<rparr>,
        post_outcome = Returns \<lparr>status_code = 204, content = [], parsed = None\<rparr>\<rparr>
      (Looper [''A'', ''B'', ''C''] True ''b'' ''m'' (Finite (Abs_double 300)) ''c'' ''t''))
     = Inr (Looper [''A'', ''B'', ''C''] True ''b'' ''m'' (Finite (Abs_double 300)) ''c'' ''t'')"
proof -
  let ?S = "Looper [''A'', ''B'', ''C''] True ''b'' ''m'' (Finite (Abs_double 300)) ''c'' ''t''"
  let ?W = "\<lparr>now = \<lparr>year = 2024, month = 5, day = 17, hour = 20, minute = 3, second = 20,
               microsecond = 0\<rparr>,
        sleep_outcome = None, get_outcome = Returns \<lparr>status_code = 200, content = [], parsed = Some (PDict [(''data'', PList [])])\<rparr>,
        post_outcome = Returns \<lparr>status_code = 204, content = [], parsed = None\<rparr>\<rparr>"
  have i: "interval ?S = Finite (Abs_double 300)" by (simp add: Looper_def)
  have y: "real_of_double (Abs_double 300) = real 300"
    using real_of_double_nat [of 300] by simp
  have c: "send_announcement ?W ?S =
             (fst (check_and_announce ?W ?S),
              Sleep (real (300 - whole_seconds (now ?W) mod 300)) # snd (check_and_announce ?W ?S))"
    by (rule cycle_whole [OF i y]) (simp_all add: whole_seconds_def)
  have sl: "sleeps (snd (send_announcement ?W ?S)) = [100]"
    using c by (simp add: sleeps_check_and_announce whole_seconds_def)
  have g: "ignore_offline ?S" by (simp add: Looper_def)
  have n: "not_confirmed_online ?W" by (simp add: not_confirmed_online_def)
  from offline_cycle_skips [OF g n] sl
  have "posts (snd (send_announcement ?W ?S)) = []
        \<and> fst (send_announcement ?W ?S) = Inr ?S"
    by simp
  with g n sl show ?thesis by simp
qed

text \<open>
  C7 (as amended). When \<open>ignore_offline\<close> is not set, no cycle of the loop issues a status
  request. A cycle that has slept and whose index is within the announcement list posts
  the current announcement, whatever the world of the cycle is; and a loop that starts
  with the index within the list and has gone through \<open>n\<close> cycles has posted \<open>n\<close> times.
\<close>

theorem no_status_check_when_not_ignoring:
  assumes "\<not> ignore_offline s"
  shows "gets (snd (run ws s)) = []
         \<and> (sleeps (snd (send_announcement w s)) \<noteq> []
               \<and> index s < length (announcements s) \<longrightarrow>
              posts (snd (send_announcement w s))
                = [announcement_request s (announcements s ! index s)])
         \<and> (index s < length (announcements s) \<longrightarrow>
              (\<forall>s'. fst (run ws s) = Inr s' \<longrightarrow> length (posts (snd (run ws s))) = length ws))"
proof (intro conjI impI allI)
  show "gets (snd (run ws s)) = []" by (rule run_gets [OF assms])
next
  assume a: "sleeps (snd (send_announcement w s)) \<noteq> [] \<and> index s < length (announcements s)"
  then have "posts (snd (send_announcement w s)) = posts (snd (check_and_announce w s))"
    using slept_posts(1) by blast
  with a assms show "posts (snd (send_announcement w s))
                       = [announcement_request s (announcements s ! index s)]"
    by (simp add: posts_check_and_announce)
next
  fix s' assume "index s < length (announcements s)" "fst (run ws s) = Inr s'"
  then show "length (posts (snd (run ws s))) = length ws"
    using run_posts_count [OF assms] by blast
qed

text \<open>Two cycles whose posts are answered with 500: no status request, one post per cycle.\<close>

theorem no_status_check_when_not_ignoring_witness:
  "\<not> ignore_offline (Looper [''A'', ''B'', ''C''] False ''b'' ''m'' (Finite (Abs_double 300)) ''c'' ''t'')
   \<and> sleeps (snd (send_announcement
      \<lparr>now = \<lparr>year = 2024, month = 5, day = 17, hour = 20, minute = 3, second = 20,
               microsecond = 0\<rparr>,
        sleep_outcome = None, get_outcome = Raises Timeout,
        post_outcome = Returns \<lparr>status_code = 500, content = [], parsed = None\<rparr>\<rparr>
      (Looper [''A'', ''B'', ''C''] False ''b'' ''m'' (Finite (Abs_double 300)) ''c'' ''t''))) = [100]
   \<and> gets (snd (run (replicate 2
      \<lparr>now = \<lparr>year = 2024, month = 5, day = 17, hour = 20, minute = 3, second = 20,
               microsecond = 0\<rparr>,
        sleep_outcome = None, get_outcome = Raises Timeout,
        post_outcome = Returns \<lparr>status_code = 500, content = [], parsed = None\<rparr>\<rparr>)
      (Looper [''A'', ''B'', ''C''] False ''b'' ''m'' (Finite (Abs_double 300)) ''c'' ''t''))) = []
   \<and> posts (snd (send_announcement
      \<lparr>now = \<lparr>year = 2024, month = 5, day = 17, hour = 20, minute = 3, second = 20,
               microsecond = 0\<rparr>,
        sleep_outcome = None, get_outcome = Raises Timeout,
        post_outcome = Returns \<lparr>status_code = 500, content = [], parsed = None\<rparr>\<rparr>
      (Looper [''A'', ''B'', ''C''] False ''b'' ''m'' (Finite (Abs_double 300)) ''c'' ''t'')))
     = [announcement_request (Looper [''A'', ''B'', ''C''] False ''b'' ''m'' (Finite (Abs_double 300)) ''c'' ''t'') ''A'']"
proof -
  let ?S = "Looper [''A'', ''B'', ''C''] False ''b'' ''m'' (Finite (Abs_double 300)) ''c'' ''t''"
  let ?W = "\<lparr>now = \<lparr>year = 2024, month = 5, day = 17, hour = 20, minute = 3, second = 20,
               microsecond = 0\<rparr>,
        sleep_outcome = None, get_outcome = Raises Timeout,
        post_outcome = Returns \<lparr>status_code = 500, content = [], parsed = None\<rparr>\<rparr>"
  have i: "interval ?S = Finite (Abs_double 300)" by (simp add: Looper_def)
  have y: "real_of_double (Abs_double 300) = real 300"
    using real_of_double_nat [of 300] by simp
  have c: "send_announcement ?W ?S =
             (fst (check_and_announce ?W ?S),
              Sleep (real (300 - whole_seconds (now ?W) mod 300)) # snd (check_and_announce ?W ?S))"
    by (rule cycle_whole [OF i y]) (simp_all add: whole_seconds_def)
  have sl: "sleeps (snd (send_announcement ?W ?S)) = [100]"
    using c by (simp add: sleeps_check_and_announce whole_seconds_def)
  have g: "\<not> ignore_offline ?S" by (simp add: Looper_def)
  have j: "index ?S < length (announcements ?S)" by (simp add: Looper_def)
  have a: "announcements ?S ! index ?S = ''A''" by (simp add: Looper_def)
  from no_status_check_when_not_ignoring [OF g, of "replicate 2 ?W" ?W] sl j
  have "gets (snd (run (replicate 2 ?W) ?S)) = []
        \<and> posts (snd (send_announcement ?W ?S))
            = [announcement_request ?S (announcements ?S ! index ?S)]"
    by simp
  with g sl show ?thesis by (simp add: a)
qed

text \<open>
  The post is not unconditional. With an empty announcement list the cycle sleeps and
  then raises \<open>IndexError\<close> with no post; with an interval of \<open>10^10\<close> seconds the sleep
  raises \<open>OverflowError\<close> and the cycle issues no request.
\<close>

theorem unconditional_post_counterexample:
  "\<not> ignore_offline (Looper [] False ''b'' ''m'' (Finite (Abs_double 300)) ''c'' ''t'')
   \<and> send_announcement
      \<lparr>now = \<lparr>year = 2024, month = 5, day = 17, hour = 20, minute = 3, second = 20,
               microsecond = 0\<rparr>,
        sleep_outcome = None, get_outcome = Raises Timeout,
        post_outcome = Returns \<lparr>status_code = 204, content = [], parsed = None\<rparr>\<rparr>
      (Looper [] False ''b'' ''m'' (Finite (Abs_double 300)) ''c'' ''t'')
     = (Inl IndexError, [Sleep 100])
   \<and> \<not> ignore_offline (Looper [''A'', ''B'', ''C''] False ''b'' ''m'' (Finite (Abs_double 10000000000)) ''c'' ''t'')
   \<and> send_announcement
      \<lparr>now = \<lparr>year = 2024, month = 5, day = 17, hour = 20, minute = 3, second = 20,
               microsecond = 0\<rparr>,
        sleep_outcome = None, get_outcome = Raises Timeout,
        post_outcome = Returns \<lparr>status_code = 204, content = [], parsed = None\<rparr>\<rparr>
      (Looper [''A'', ''B'', ''C''] False ''b'' ''m'' (Finite (Abs_double 10000000000)) ''c'' ''t'')
     = (Inl OverflowError, [])"
proof -
  let ?S = "Looper [] False ''b'' ''m'' (Finite (Abs_double 300)) ''c'' ''t''"
  let ?W = "\<lparr>now = \<lparr>year = 2024, month = 5, day = 17, hour = 20, minute = 3, second = 20,
               microsecond = 0\<rparr>,
        sleep_outcome = None, get_outcome = Raises Timeout,
        post_outcome = Returns \<lparr>status_code = 204, content = [], parsed = None\<rparr>\<rparr>"
  have i: "interval ?S = Finite (Abs_double 300)" by (simp add: Looper_def)
  have y: "real_of_double (Abs_double 300) = real 300"
    using real_of_double_nat [of 300] by simp
  have c: "send_announcement ?W ?S =
             (fst (check_and_announce ?W ?S),
              Sleep (real (300 - whole_seconds (now ?W) mod 300)) # snd (check_and_announce ?W ?S))"
    by (rule cycle_whole [OF i y]) (simp_all add: whole_seconds_def)
  have a: "send_announcement ?W ?S = (Inl IndexError, [Sleep 100])"
    using c by (simp add: check_and_announce_eq announce_eq Looper_def whole_seconds_def)
  let ?B = "Looper [''A'', ''B'', ''C''] False ''b'' ''m'' (Finite (Abs_double 10000000000)) ''c'' ''t''"
  have ib: "interval ?B = Finite (Abs_double 10000000000)" by (simp add: Looper_def)
  have yb: "real_of_double (Abs_double 10000000000) = real 10000000000"
    using real_of_double_nat [of 10000000000] by simp
  have "seconds_until_announcement (now ?W) (interval ?B)
          = Inr (Finite (real (10000000000 - whole_seconds (now ?W) mod 10000000000)))"
    by (rule seconds_whole [OF ib yb]) (simp_all add: whole_seconds_def)
  then have sec: "seconds_until_announcement (now ?W) (interval ?B) = Inr (Finite 9998531000)"
    by (simp add: whole_seconds_def)
  have "rhe (9998531000 * 1000000) = 9998531000000000"
    using rhe_of_int [of 9998531000000000] by simp
  then have td: "timedelta_seconds (Finite 9998531000) = Inr ()"
    by (simp add: timedelta_seconds_def Let_def)
  have "is_double 9998531000000000000"
    unfolding is_double_def
    by (rule exI [of _ 2441047607421875], rule exI [of _ 12]) simp
  then have ns: "round_real 9998531000000000000 = 9998531000000000000"
    by (rule round_real_double)
  have sl: "sleep ?W (Finite 9998531000) = (Inl OverflowError, [])"
    by (simp add: sleep_def Let_def ns)
  have b: "send_announcement ?W ?B = (Inl OverflowError, [])"
    using sec td sl by (simp add: send_announcement_def)
  from a b show ?thesis by (simp add: Looper_def)
qed

subsection \<open>Exceptions\<close>

text \<open>
  C8. Let a cycle started in state \<open>s\<close> end with result \<open>r\<close> and trace \<open>tr\<close>. If a request of the
  cycle (the status request or the post) raised a timeout, the cycle returns \<open>s\<close> unchanged
  and the loop goes on to the next cycle from \<open>s\<close>. If a request raised any other
  exception \<open>e\<close>, the cycle raises \<open>e\<close> and the loop ends with \<open>e\<close>; no later cycle runs.
\<close>

theorem timeout_caught_others_propagate:
  assumes "send_announcement w s = (r, tr)"
  shows "(gets tr \<noteq> [] \<and> get_outcome w = Raises Timeout \<longrightarrow>
            r = Inr s \<and> run (w # ws) s = (fst (run ws s), tr @ snd (run ws s)))
         \<and> (posts tr \<noteq> [] \<and> post_outcome w = Raises Timeout \<longrightarrow>
              r = Inr s \<and> run (w # ws) s = (fst (run ws s), tr @ snd (run ws s)))
         \<and> (gets tr \<noteq> [] \<and> get_outcome w = Raises e \<and> e \<noteq> Timeout \<longrightarrow>
              r = Inl e \<and> run (w # ws) s = (Inl e, tr))
         \<and> (posts tr \<noteq> [] \<and> post_outcome w = Raises e \<and> e \<noteq> Timeout \<longrightarrow>
              r = Inl e \<and> run (w # ws) s = (Inl e, tr))"
proof -
  have g: "r = (if x = Timeout then Inr s else Inl x)"
    if "gets tr \<noteq> []" "get_outcome w = Raises x" for x
    using that assms gets_send_announcement_nonempty [of w s] status_check_raises [of s w x]
    by simp
  have p: "r = (if x = Timeout then Inr s else Inl x)"
    if "posts tr \<noteq> []" "post_outcome w = Raises x" for x
    using that assms posts_send_announcement [of w s] post_raises [of w s x]
    by auto
  have c: "run (w # ws) s = (fst (run ws s), tr @ snd (run ws s))" if "r = Inr s"
    using that assms by (simp add: case_prod_unfold)
  have t: "run (w # ws) s = (Inl e, tr)" if "r = Inl e"
    using that assms by simp
  show ?thesis
    using g [of Timeout] p [of Timeout] g [of e] p [of e] c t by auto
qed

text \<open>A status request that times out, and one that raises a connection error.\<close>

theorem timeout_caught_others_propagate_witness:
  "fst (send_announcement
      \<lparr>now = \<lparr>year = 2024, month = 5, day = 17, hour = 20, minute = 3, second = 20,
               microsecond = 0\<rparr>,
        sleep_outcome = None, get_outcome = Raises Timeout,
        post_outcome = Returns \<lparr>status_code = 204, content = [], parsed = None\<rparr>\<rparr>
      (Looper [''A'', ''B'', ''C''] True ''b'' ''m'' (Finite (Abs_double 300)) ''c'' ''t'')) = Inr (Looper [''A'', ''B'', ''C''] True ''b'' ''m'' (Finite (Abs_double 300)) ''c'' ''t'')
   \<and> fst (run [
      \<lparr>now = \<lparr>year = 2024, month = 5, day = 17, hour = 20, minute = 3, second = 20,
               microsecond = 0\<rparr>,
        sleep_outcome = None, get_outcome = Raises ConnectionError,
        post_outcome = Returns \<lparr>status_code = 204, content = [], parsed = None\<rparr>\<rparr>,
      \<lparr>now = \<lparr>year = 2024, month = 5, day = 17, hour = 20, minute = 3, second = 20,
               microsecond = 0\<rparr>,
        sleep_outcome = None, get_outcome = Raises Timeout,
        post_outcome = Returns \<lparr>status_code = 204, content = [], parsed = None\<rparr>\<rparr>]
      (Looper [''A'', ''B'', ''C''] True ''b'' ''m'' (Finite (Abs_double 300)) ''c'' ''t'')) = Inl ConnectionError"
proof -
  let ?S = "Looper [''A'', ''B'', ''C''] True ''b'' ''m'' (Finite (Abs_double 300)) ''c'' ''t''"
  let ?W = "\<lparr>now = \<lparr>year = 2024, month = 5, day = 17, hour = 20, minute = 3, second = 20,
               microsecond = 0\<rparr>,
        sleep_outcome = None, get_outcome = Raises Timeout,
        post_outcome = Returns \<lparr>status_code = 204, content = [], parsed = None\<rparr>\<rparr>"
  let ?W2 = "\<lparr>now = \<lparr>year = 2024, month = 5, day = 17, hour = 20, minute = 3, second = 20,
               microsecond = 0\<rparr>,
        sleep_outcome = None, get_outcome = Raises ConnectionError,
        post_outcome = Returns \<lparr>status_code = 204, content = [], parsed = None\<rparr>\<rparr>"
  have i: "interval ?S = Finite (Abs_double 300)" by (simp add: Looper_def)
  have y: "real_of_double (Abs_double 300) = real 300"
    using real_of_double_nat [of 300] by simp
  have c: "send_announcement ?W ?S =
             (fst (check_and_announce ?W ?S),
              Sleep (real (300 - whole_seconds (now ?W) mod 300)) # snd (check_and_announce ?W ?S))"
    by (rule cycle_whole [OF i y]) (simp_all add: whole_seconds_def)
  have c2: "send_announcement ?W2 ?S =
             (fst (check_and_announce ?W2 ?S),
              Sleep (real (300 - whole_seconds (now ?W2) mod 300)) # snd (check_and_announce ?W2 ?S))"
    by (rule cycle_whole [OF i y]) (simp_all add: whole_seconds_def)
  have g1: "gets (snd (send_announcement ?W ?S)) \<noteq> []"
    using c by (simp add: gets_check_and_announce Looper_def)
  have g2: "gets (snd (send_announcement ?W2 ?S)) \<noteq> []"
    using c2 by (simp add: gets_check_and_announce Looper_def)
  have h1: "send_announcement ?W ?S
              = (fst (send_announcement ?W ?S), snd (send_announcement ?W ?S))"
    by simp
  have h2: "send_announcement ?W2 ?S
              = (fst (send_announcement ?W2 ?S), snd (send_announcement ?W2 ?S))"
    by simp
  from timeout_caught_others_propagate [OF h1, of "[]" ConnectionError] g1
  have a: "fst (send_announcement ?W ?S) = Inr ?S" by simp
  from timeout_caught_others_propagate [OF h2, of "[?W]" ConnectionError] g2
  have b: "run [?W2, ?W] ?S = (Inl ConnectionError, snd (send_announcement ?W2 ?S))" by simp
  from a b show ?thesis by (simp only: fst_conv)
qed

text \<open>
  C10. If the status request of a cycle is answered with status 200 and a body that is
  not JSON, or is JSON without a \<open>data\<close> key, the cycle raises \<open>JSONDecodeError\<close>, \<open>KeyError\<close>
  or \<open>TypeError\<close>; it does not return as a skipped cycle, it issues no post, and the loop
  ends with that exception.
\<close>

theorem malformed_status_body_propagates:
  assumes "send_announcement w s = (r, tr)" "gets tr \<noteq> []"
    and "get_outcome w = Returns resp" "status_code resp = 200" "lacks_data resp"
  shows "r \<in> {Inl JSONDecodeError, Inl KeyError, Inl TypeError}
         \<and> r \<noteq> Inr s \<and> posts tr = []
         \<and> run (w # ws) s = (r, tr)"
proof -
  have i: "ignore_offline s" and f: "r = fst (check_and_announce w s)"
    using assms(1,2) gets_send_announcement_nonempty [of w s] by simp_all
  have t: "tr = [] \<or> (\<exists>d. tr = Sleep d # snd (check_and_announce w s))"
    using assms(1) send_announcement_shape [of w s] by auto
  have "check_and_announce w s = (Inl JSONDecodeError, [Get (streams_request s)])
        \<or> check_and_announce w s = (Inl KeyError, [Get (streams_request s)])
        \<or> check_and_announce w s = (Inl TypeError, [Get (streams_request s)])"
  proof (cases "parsed resp")
    case None
    with i assms(3,4) show ?thesis by (simp add: check_and_announce_eq try_get_online)
  next
    case (Some j)
    with i assms(3,4) getitem_lacks_data [OF Some assms(5)] show ?thesis
      by (auto simp: check_and_announce_eq try_get_online)
  qed
  with f t assms(1) show ?thesis by auto
qed

text \<open>The status check is answered with 200 and a JSON object that has only an \<open>error\<close> key.\<close>

theorem malformed_status_body_propagates_witness:
  "lacks_data \<lparr>status_code = 200, content = [], parsed = Some (PDict [(''error'', PStr ''Unauthorized'')])\<rparr>
   \<and> fst (send_announcement
      \<lparr>now = \<lparr>year = 2024, month = 5, day = 17, hour = 20, minute = 3, second = 20,
               microsecond = 0\<rparr>,
        sleep_outcome = None, get_outcome = Returns \<lparr>status_code = 200, content = [], parsed = Some (PDict [(''error'', PStr ''Unauthorized'')])\<rparr>,
        post_outcome = Returns \<lparr>status_code = 204, content = [], parsed = None\<rparr>\<rparr>
      (Looper [''A'', ''B'', ''C''] True ''b'' ''m'' (Finite (Abs_double 300)) ''c'' ''t'')) = Inl KeyError
   \<and> fst (run (replicate 2
      \<lparr>now = \<lparr>year = 2024, month = 5, day = 17, hour = 20, minute = 3, second = 20,
               microsecond = 0\<rparr>,
        sleep_outcome = None, get_outcome = Returns \<lparr>status_code = 200, content = [], parsed = Some (PDict [(''error'', PStr ''Unauthorized'')])\<rparr>,
        post_outcome = Returns \<lparr>status_code = 204, content = [], parsed = None\<rparr>\<rparr>)
      (Looper [''A'', ''B'', ''C''] True ''b'' ''m'' (Finite (Abs_double 300)) ''c'' ''t'')) = Inl KeyError"
proof -
  let ?S = "Looper [''A'', ''B'', ''C''] True ''b'' ''m'' (Finite (Abs_double 300)) ''c'' ''t''"
  let ?W = "\<lparr>now = \<lparr>year = 2024, month = 5, day = 17, hour = 20, minute = 3, second = 20,
               microsecond = 0\<rparr>,
        sleep_outcome = None, get_outcome = Returns \<lparr>status_code = 200, content = [], parsed = Some (PDict [(''error'', PStr ''Unauthorized'')])\<rparr>,
        post_outcome = Returns \<lparr>status_code = 204, content = [], parsed = None\<rparr>\<rparr>"
  let ?R = "\<lparr>status_code = 200, content = [], parsed = Some (PDict [(''error'', PStr ''Unauthorized'')])\<rparr>"
  have i: "interval ?S = Finite (Abs_double 300)" by (simp add: Looper_def)
  have y: "real_of_double (Abs_double 300) = real 300"
    using real_of_double_nat [of 300] by simp
  have c: "send_announcement ?W ?S =
             (fst (check_and_announce ?W ?S),
              Sleep (real (300 - whole_seconds (now ?W) mod 300)) # snd (check_and_announce ?W ?S))"
    by (rule cycle_whole [OF i y]) (simp_all add: whole_seconds_def)
  have l: "lacks_data ?R" by (simp add: lacks_data_def)
  have g: "gets (snd (send_announcement ?W ?S)) \<noteq> []"
    using c by (simp add: gets_check_and_announce Looper_def)
  have h: "send_announcement ?W ?S
             = (fst (send_announcement ?W ?S), snd (send_announcement ?W ?S))"
    by simp
  have k: "fst (check_and_announce ?W ?S) = Inl KeyError"
    by (simp add: check_and_announce_eq try_get_online Looper_def)
  have r: "replicate 2 ?W = [?W, ?W]" by (simp add: numeral_2_eq_2)
  from malformed_status_body_propagates [OF h g, of ?R "[?W]"] l
  have "run [?W, ?W] ?S = (fst (send_announcement ?W ?S), snd (send_announcement ?W ?S))"
    by simp
  moreover have "fst (send_announcement ?W ?S) = Inl KeyError"
    using c k by simp
  ultimately show ?thesis using l by (simp only: r fst_conv)
qed

end
